theory Spec2Isabelle
  imports Complex_Main "HOL-Library.Word" "HOL-Library.AList" "HOL-Library.Multiset"
begin

unbundle bit_operations_syntax

section \<open>Data model of \<open>fast_dc.cpp\<close>\<close>

text \<open>
  C++ \<open>int\<close> and \<open>uint32_t\<close> are both 32-bit words; \<open>sint\<close> reads the signed value,
  \<open>unat\<close> the unsigned one.  The arithmetic and bitwise operators of the source act on
  the bits and wrap around, exactly as the word operations do.
\<close>

type_synonym uint32_t = "32 word"
type_synonym int32_t = "32 word"

text \<open>\<open>glm::ivec4\<close>: four \<open>int\<close> components.\<close>

record ivec4 =
  ix :: int32_t
  iy :: int32_t
  iz :: int32_t
  iw :: int32_t

definition mk_ivec4 :: "int32_t \<Rightarrow> int32_t \<Rightarrow> int32_t \<Rightarrow> int32_t \<Rightarrow> ivec4" where
  "mk_ivec4 a b c d = \<lparr>ix = a, iy = b, iz = c, iw = d\<rparr>"

definition ivec4_sub :: "ivec4 \<Rightarrow> ivec4 \<Rightarrow> ivec4" where
  "ivec4_sub a b = \<lparr>ix = ix a - ix b, iy = iy a - iy b, iz = iz a - iz b, iw = iw a - iw b\<rparr>"

text \<open>The per-axis corner offsets (\<open>ivec4(0)\<close> sets every component to 0).\<close>

definition EDGE_NODE_OFFSETS :: "ivec4 list list" where
  "EDGE_NODE_OFFSETS =
    [ [mk_ivec4 0 0 0 0, mk_ivec4 0 0 1 0, mk_ivec4 0 1 0 0, mk_ivec4 0 1 1 0],
      [mk_ivec4 0 0 0 0, mk_ivec4 1 0 0 0, mk_ivec4 0 0 1 0, mk_ivec4 1 0 1 0],
      [mk_ivec4 0 0 0 0, mk_ivec4 0 1 0 0, mk_ivec4 1 0 0 0, mk_ivec4 1 1 0 0] ]"

definition ENCODED_EDGE_NODE_OFFSETS :: "uint32_t list" where
  "ENCODED_EDGE_NODE_OFFSETS =
    [ 0x00000000, 0x00100000, 0x00000400, 0x00100400,
      0x00000000, 0x00000001, 0x00100000, 0x00100001,
      0x00000000, 0x00000400, 0x00000001, 0x00000401 ]"

definition ENCODED_EDGE_OFFSETS :: "uint32_t list" where
  "ENCODED_EDGE_OFFSETS =
    [ 0x00000000, 0x00100000, 0x00000400, 0x00100400,
      0x40000000, 0x40100000, 0x40000001, 0x40100001,
      0x80000000, 0x80000400, 0x80000001, 0x80000401 ]"

subsection \<open>Voxel and edge identifiers\<close>

definition EncodeVoxelUniqueID :: "ivec4 \<Rightarrow> uint32_t" where
  "EncodeVoxelUniqueID idxPos =
     ix idxPos OR push_bit 10 (iy idxPos) OR push_bit 20 (iz idxPos)"

definition DecodeVoxelUniqueID :: "uint32_t \<Rightarrow> ivec4" where
  "DecodeVoxelUniqueID v =
     mk_ivec4 (v AND 0x3ff) (drop_bit 10 v AND 0x3ff) (drop_bit 20 v AND 0x3ff) 0"

definition EncodeAxisUniqueID :: "int32_t \<Rightarrow> int32_t \<Rightarrow> int32_t \<Rightarrow> int32_t \<Rightarrow> uint32_t" where
  "EncodeAxisUniqueID axis x y z =
     push_bit 0 x OR push_bit 10 y OR push_bit 20 z OR push_bit 30 axis"


section \<open>Floating-point vectors\<close>

text \<open>
  \<open>float\<close> values are modelled as reals: the properties proved below are about which
  samples are compared, summed and stored, not about rounding.  \<open>glm::vec4\<close> is a record of four
  components, \<open>glm::vec3\<close> a triple.
\<close>

record vec4 =
  vx :: real
  vy :: real
  vz :: real
  vw :: real

type_synonym vec3 = "real \<times> real \<times> real"

definition mk_vec4 :: "real \<Rightarrow> real \<Rightarrow> real \<Rightarrow> real \<Rightarrow> vec4" where
  "mk_vec4 a b c d = \<lparr>vx = a, vy = b, vz = c, vw = d\<rparr>"

definition vec4_add :: "vec4 \<Rightarrow> vec4 \<Rightarrow> vec4" where
  "vec4_add a b = \<lparr>vx = vx a + vx b, vy = vy a + vy b, vz = vz a + vz b, vw = vw a + vw b\<rparr>"

definition vec4_sub :: "vec4 \<Rightarrow> vec4 \<Rightarrow> vec4" where
  "vec4_sub a b = \<lparr>vx = vx a - vx b, vy = vy a - vy b, vz = vz a - vz b, vw = vw a - vw b\<rparr>"

definition vec4_scale :: "vec4 \<Rightarrow> real \<Rightarrow> vec4" where
  "vec4_scale a s = \<lparr>vx = vx a * s, vy = vy a * s, vz = vz a * s, vw = vw a * s\<rparr>"

definition vec3_of :: "vec4 \<Rightarrow> vec3" where
  "vec3_of p = (vx p, vy p, vz p)"

text \<open>\<open>glm::mix(x, y, a) = x * (1 - a) + y * a\<close>, componentwise.\<close>

definition mix1 :: "real \<Rightarrow> real \<Rightarrow> real \<Rightarrow> real" where
  "mix1 a b t = a * (1 - t) + b * t"

definition mix4 :: "vec4 \<Rightarrow> vec4 \<Rightarrow> real \<Rightarrow> vec4" where
  "mix4 a b t =
     \<lparr>vx = mix1 (vx a) (vx b) t, vy = mix1 (vy a) (vy b) t,
      vz = mix1 (vz a) (vz b) t, vw = mix1 (vw a) (vw b) t\<rparr>"

definition mix3 :: "vec3 \<Rightarrow> vec3 \<Rightarrow> real \<Rightarrow> vec3" where
  "mix3 a b t =
     (case a of (a1, a2, a3) \<Rightarrow> case b of (b1, b2, b3) \<Rightarrow>
        (mix1 a1 b1 t, mix1 a2 b2 t, mix1 a3 b3 t))"

definition AXIS_OFFSET :: "vec4 list" where
  "AXIS_OFFSET = [mk_vec4 1 0 0 0, mk_vec4 0 1 0 0, mk_vec4 0 0 1 0]"

definition FLT_MAX :: real where
  "FLT_MAX = 340282346638528859811704183484516925440"

section \<open>What the file takes from elsewhere\<close>

text \<open>
  \<open>fast_dc.cpp\<close> calls code that is declared in headers outside the file; each of these
  is a field of the environment.
  \<^item> \<open>Density_Func\<close> (\<open>density.h\<close>): the scalar field.
  \<^item> \<open>glm_normalize\<close>: \<open>glm::normalize\<close> on a \<open>vec4\<close>.
  \<^item> \<open>qef_solve_from_points_4d\<close> (\<open>qef_simd.h\<close>): the solver, given the filled prefix of
    the position and normal arrays and the count.
  \<^item> \<open>vec4_default\<close>: the value of a default-constructed \<open>glm::vec4\<close>
    (\<open>vec4 nodeNormal;\<close> is accumulated into without an initialiser).
  \<^item> \<open>iter_voxels\<close>, \<open>iter_edges\<close>: the order in which the unordered containers
    hand out their elements.
\<close>

record EdgeInfo =
  pos :: vec4
  normal :: vec4
  winding :: bool

type_synonym EdgeInfoMap = "(uint32_t \<times> EdgeInfo) list"
type_synonym VoxelIDSet = "uint32_t list"
type_synonym VoxelIndexMap = "uint32_t \<rightharpoonup> nat"

record env =
  Density_Func :: "vec3 \<Rightarrow> real"
  glm_normalize :: "vec4 \<Rightarrow> vec4"
  qef_solve_from_points_4d :: "vec4 list \<Rightarrow> vec4 list \<Rightarrow> nat \<Rightarrow> vec4"
  vec4_default :: vec4
  iter_voxels :: "VoxelIDSet \<Rightarrow> uint32_t list"
  iter_edges :: "EdgeInfoMap \<Rightarrow> (uint32_t \<times> EdgeInfo) list"

definition Density :: "env \<Rightarrow> vec4 \<Rightarrow> real" where
  "Density E p = Density_Func E (vec3_of p)"

section \<open>EdgeSampler\<close>

text \<open>
  The loop state of \<open>FindIntersection\<close> is \<open>(minValue, currentT, t)\<close>; the body runs
  \<open>FIND_EDGE_INFO_STEPS\<close> times.
\<close>

definition FIND_EDGE_INFO_STEPS :: nat where
  "FIND_EDGE_INFO_STEPS = 16"

definition FIND_EDGE_INFO_INCREMENT :: real where
  "FIND_EDGE_INFO_INCREMENT = 1 / real FIND_EDGE_INFO_STEPS"

definition find_step :: "env \<Rightarrow> vec4 \<Rightarrow> vec4 \<Rightarrow> nat \<Rightarrow> real \<times> real \<times> real \<Rightarrow> real \<times> real \<times> real" where
  "find_step E p0 p1 i s =
     (case s of (minValue, currentT, t) \<Rightarrow>
        let p = mix4 p0 p1 currentT;
            d = \<bar>Density E p\<bar>
        in if d < minValue
           then (d, currentT + FIND_EDGE_INFO_INCREMENT, currentT)
           else (minValue, currentT + FIND_EDGE_INFO_INCREMENT, t))"

definition FindIntersection :: "env \<Rightarrow> vec4 \<Rightarrow> vec4 \<Rightarrow> real" where
  "FindIntersection E p0 p1 =
     (case fold (find_step E p0 p1) [0..<FIND_EDGE_INFO_STEPS] (FLT_MAX, 0, 0) of
        (minValue, currentT, t) \<Rightarrow> t)"


section \<open>ActiveVoxelScanner\<close>

text \<open>
  \<open>VoxelIDSet\<close> is kept as a duplicate-free list (\<open>List.insert\<close> adds a value only when
  it is absent), \<open>EdgeInfoMap\<close> as an association list (\<open>AList.update\<close> overwrites the
  entry of a key already present), both looked up by key.
\<close>

record scan_state =
  activeVoxels :: VoxelIDSet
  activeEdges :: EdgeInfoMap

text \<open>
  The grid size and the loop counters \<open>x\<close>, \<open>y\<close>, \<open>z\<close>, \<open>axis\<close>, \<open>i\<close> are natural numbers
  (for a size of 0 or less no loop body runs); where the source uses them as \<open>int\<close> values
  they are converted with \<open>of_nat\<close>.  \<open>printf\<close> calls are left out.
\<close>

definition cell_point :: "int \<Rightarrow> int \<Rightarrow> int \<Rightarrow> nat \<Rightarrow> nat \<Rightarrow> nat \<Rightarrow> nat \<Rightarrow> vec4" where
  "cell_point worldX worldY worldZ voxelGridSize x y z =
     (let gridOffset = real voxelGridSize / 2
      in mk_vec4 (real x - gridOffset + real_of_int worldX)
                 (real y - gridOffset + real_of_int worldY)
                 (real z - gridOffset + real_of_int worldZ) 1)"

definition zeroCrossing :: "real \<Rightarrow> real \<Rightarrow> bool" where
  "zeroCrossing pDensity qDensity =
     (pDensity \<ge> 0 \<and> qDensity < 0 \<or> pDensity < 0 \<and> qDensity \<ge> 0)"

definition H :: real where
  "H = 1 / 1000"

text \<open>The \<open>EdgeInfo\<close> built for a crossing edge from \<open>p\<close> to \<open>q\<close>.\<close>

definition edge_info :: "env \<Rightarrow> vec4 \<Rightarrow> vec4 \<Rightarrow> EdgeInfo" where
  "edge_info E p q =
     (let pDensity = Density E p;
          t = FindIntersection E p q;
          m = mix3 (vec3_of p) (vec3_of q) t;
          pos = (case m of (a, b, c) \<Rightarrow> mk_vec4 a b c 1);
          normal = glm_normalize E (mk_vec4
            (Density E (vec4_add pos (mk_vec4 H 0 0 0)) - Density E (vec4_sub pos (mk_vec4 H 0 0 0)))
            (Density E (vec4_add pos (mk_vec4 0 H 0 0)) - Density E (vec4_sub pos (mk_vec4 0 H 0 0)))
            (Density E (vec4_add pos (mk_vec4 0 0 H 0)) - Density E (vec4_sub pos (mk_vec4 0 0 H 0)))
            0)
      in \<lparr>pos = pos, normal = normal, winding = (pDensity \<ge> 0)\<rparr>)"

text \<open>
  One round of the innermost loop: the neighbour \<open>idxPos - edgeNodes[i]\<close> is encoded
  first and inserted only when none of its coordinates is negative.
\<close>

definition add_node :: "ivec4 \<Rightarrow> nat \<Rightarrow> nat \<Rightarrow> VoxelIDSet \<Rightarrow> VoxelIDSet" where
  "add_node idxPos axis i voxels =
     (let nodeIdxPos = ivec4_sub idxPos (EDGE_NODE_OFFSETS ! axis ! i);
          nodeID = EncodeVoxelUniqueID nodeIdxPos
      in if sint (ix nodeIdxPos) < 0 \<or> sint (iy nodeIdxPos) < 0 \<or> sint (iz nodeIdxPos) < 0
         then voxels
         else List.insert nodeID voxels)"

definition scan_axis :: "env \<Rightarrow> vec4 \<Rightarrow> nat \<Rightarrow> nat \<Rightarrow> nat \<Rightarrow> nat \<Rightarrow> scan_state \<Rightarrow> scan_state" where
  "scan_axis E p x y z axis st =
     (let idxPos = mk_ivec4 (of_nat x) (of_nat y) (of_nat z) 0;
          q = vec4_add p (AXIS_OFFSET ! axis);
          pDensity = Density E p;
          qDensity = Density E q
      in if \<not> zeroCrossing pDensity qDensity then st
         else
           let info = edge_info E p q;
               code = EncodeAxisUniqueID (of_nat axis) (of_nat x) (of_nat y) (of_nat z)
           in \<lparr>activeVoxels = fold (add_node idxPos axis) [0..<4] (activeVoxels st),
               activeEdges = AList.update code info (activeEdges st)\<rparr>)"

definition scan_cell :: "env \<Rightarrow> int \<Rightarrow> int \<Rightarrow> int \<Rightarrow> nat \<Rightarrow> nat \<Rightarrow> nat \<Rightarrow> nat \<Rightarrow> scan_state \<Rightarrow> scan_state" where
  "scan_cell E worldX worldY worldZ voxelGridSize x y z st =
     (let p = cell_point worldX worldY worldZ voxelGridSize x y z
      in fold (scan_axis E p x y z) [0..<3] st)"

definition FindActiveVoxels :: "env \<Rightarrow> int \<Rightarrow> int \<Rightarrow> int \<Rightarrow> nat \<Rightarrow> scan_state \<Rightarrow> scan_state" where
  "FindActiveVoxels E worldX worldY worldZ voxelGridSize st =
     fold (\<lambda>x. fold (\<lambda>y. fold (\<lambda>z. scan_cell E worldX worldY worldZ voxelGridSize x y z)
                               [0..<voxelGridSize])
                     [0..<voxelGridSize])
          [0..<voxelGridSize] st"

section \<open>VertexPlacer\<close>

record MeshVertex =
  xyz :: vec4
  vnormal :: vec4

type_synonym MeshTriangle = "nat \<times> nat \<times> nat"

text \<open>
  \<open>MeshBuffer\<close>: the two arrays are written front to back through a moving pointer
  that starts at slot 0, so each is the list of the slots written so far; the counts are
  separate fields, as in the source.
\<close>

record MeshBuffer =
  vertices :: "MeshVertex list"
  numVertices :: nat
  triangles :: "MeshTriangle list"
  numTriangles :: nat

text \<open>
  The state of the loop over the voxels.  \<open>qef_calls\<close> records every call of the
  solver with its arguments, \<open>cellData\<close> the floats pushed to the debug vector.
\<close>

record place_state =
  idxCounter :: nat
  vertexIndices :: VoxelIndexMap
  buffer :: MeshBuffer
  cellData :: "real list"
  qef_calls :: "(vec4 list \<times> vec4 list \<times> nat) list"

text \<open>The filled prefix of \<open>p[12]\<close> and \<open>n[12]\<close>, in table order; \<open>idx\<close> is its length.\<close>

definition gather_step :: "EdgeInfoMap \<Rightarrow> uint32_t \<Rightarrow> nat \<Rightarrow> (vec4 \<times> vec4) list \<Rightarrow> (vec4 \<times> vec4) list" where
  "gather_step edges voxelID i pn =
     (let edgeID = voxelID + ENCODED_EDGE_OFFSETS ! i
      in case map_of edges edgeID of
           Some info \<Rightarrow> pn @ [(pos info, normal info)]
         | None \<Rightarrow> pn)"

definition gather :: "EdgeInfoMap \<Rightarrow> uint32_t \<Rightarrow> (vec4 \<times> vec4) list" where
  "gather edges voxelID = fold (gather_step edges voxelID) [0..<12] []"

definition place_voxel :: "env \<Rightarrow> EdgeInfoMap \<Rightarrow> uint32_t \<Rightarrow> place_state \<Rightarrow> place_state" where
  "place_voxel E edges voxelID st =
     (let pn = gather edges voxelID;
          p = map fst pn;
          n = map snd pn;
          idx = length pn;
          nodePos = qef_solve_from_points_4d E p n idx;
          st1 = st\<lparr>qef_calls := qef_calls st @ [(p, n, idx)],
                   cellData := cellData st @ [vx nodePos, vy nodePos, vz nodePos]\<rparr>;
          nodeNormal0 = fold (\<lambda>ni acc. vec4_add acc ni) n (vec4_default E);
          nodeNormal = (if idx \<noteq> 0 then vec4_scale nodeNormal0 (1 / real idx) else nodeNormal0)
      in if idx > 1
         then st1\<lparr>vertexIndices := (vertexIndices st1)(voxelID \<mapsto> idxCounter st1),
                  idxCounter := idxCounter st1 + 1,
                  buffer := (buffer st1)
                    \<lparr>numVertices := numVertices (buffer st1) + 1,
                     vertices := vertices (buffer st1) @ [\<lparr>xyz = nodePos, vnormal = nodeNormal\<rparr>]\<rparr>\<rparr>
         else st1)"

text \<open>
  \<open>voxels\<close> is the sequence in which the range-for visits the set.  \<open>idxCounter\<close> starts
  at 0 and the write pointer at slot 0 of the vertex array.
\<close>

definition GenerateVertexData ::
  "env \<Rightarrow> uint32_t list \<Rightarrow> EdgeInfoMap \<Rightarrow> VoxelIndexMap \<Rightarrow> MeshBuffer \<Rightarrow> real list \<Rightarrow> place_state" where
  "GenerateVertexData E voxels edges vertexIndices0 buffer0 cellData0 =
     fold (place_voxel E edges) voxels
       \<lparr>idxCounter = 0, vertexIndices = vertexIndices0,
        buffer = buffer0\<lparr>vertices := []\<rparr>, cellData = cellData0, qef_calls = []\<rparr>"

section \<open>Triangulator\<close>

datatype error = TableIndexOutOfRange

text \<open>
  \<open>axis\<close> is read from bits 30 and 31 of the key, so it can be 3, and then
  \<open>ENCODED_EDGE_NODE_OFFSETS[axis * 4 + i]\<close> is a read past the end of the 12-entry table.
\<close>

definition table_read :: "uint32_t list \<Rightarrow> nat \<Rightarrow> error + uint32_t" where
  "table_read tbl k = (if k < length tbl then Inr (tbl ! k) else Inl TableIndexOutOfRange)"

definition edge_axis :: "uint32_t \<Rightarrow> nat" where
  "edge_axis edge = unat (drop_bit 30 edge AND 0xff)"

definition edge_nodeID :: "uint32_t \<Rightarrow> uint32_t" where
  "edge_nodeID edge = edge AND NOT 0xc0000000"

definition edge_voxelIDs :: "uint32_t \<Rightarrow> error + uint32_t list" where
  "edge_voxelIDs edge =
     (let axis = edge_axis edge; nodeID = edge_nodeID edge
      in case table_read ENCODED_EDGE_NODE_OFFSETS (axis * 4 + 0) of Inl e \<Rightarrow> Inl e | Inr o0 \<Rightarrow>
        (case table_read ENCODED_EDGE_NODE_OFFSETS (axis * 4 + 1) of Inl e \<Rightarrow> Inl e | Inr o1 \<Rightarrow>
        (case table_read ENCODED_EDGE_NODE_OFFSETS (axis * 4 + 2) of Inl e \<Rightarrow> Inl e | Inr o2 \<Rightarrow>
        (case table_read ENCODED_EDGE_NODE_OFFSETS (axis * 4 + 3) of Inl e \<Rightarrow> Inl e | Inr o3 \<Rightarrow>
           Inr [nodeID - o0, nodeID - o1, nodeID - o2, nodeID - o3]))))"

text \<open>\<open>edgeVoxels\<close>: the indices found, packed to the front; \<open>numFoundVoxels\<close> is its length.\<close>

definition find_edgeVoxels :: "VoxelIndexMap \<Rightarrow> uint32_t list \<Rightarrow> nat list" where
  "find_edgeVoxels indices voxelIDs = List.map_filter indices voxelIDs"

definition quad_triangles :: "bool \<Rightarrow> nat list \<Rightarrow> MeshTriangle list" where
  "quad_triangles w edgeVoxels =
     (if w
      then [(edgeVoxels ! 0, edgeVoxels ! 1, edgeVoxels ! 3),
            (edgeVoxels ! 0, edgeVoxels ! 3, edgeVoxels ! 2)]
      else [(edgeVoxels ! 0, edgeVoxels ! 3, edgeVoxels ! 1),
            (edgeVoxels ! 0, edgeVoxels ! 2, edgeVoxels ! 3)])"

text \<open>The triangles one \<open>(edge, info)\<close> pair adds: none when fewer than 4 voxels are found.\<close>

definition edge_triangles :: "VoxelIndexMap \<Rightarrow> uint32_t \<times> EdgeInfo \<Rightarrow> error + MeshTriangle list" where
  "edge_triangles indices pair =
     (case edge_voxelIDs (fst pair) of
        Inl e \<Rightarrow> Inl e
      | Inr voxelIDs \<Rightarrow>
          let edgeVoxels = find_edgeVoxels indices voxelIDs;
              numFoundVoxels = length edgeVoxels
          in if numFoundVoxels < 4 then Inr []
             else Inr (quad_triangles (winding (snd pair)) edgeVoxels))"

fun triangles_loop :: "VoxelIndexMap \<Rightarrow> (uint32_t \<times> EdgeInfo) list \<Rightarrow> MeshBuffer \<Rightarrow> error + MeshBuffer" where
  "triangles_loop indices [] buf = Inr buf"
| "triangles_loop indices (pair # rest) buf =
     (case edge_triangles indices pair of Inl e \<Rightarrow> Inl e
      | Inr [] \<Rightarrow> triangles_loop indices rest buf
      | Inr ts \<Rightarrow> triangles_loop indices rest
                   (buf\<lparr>triangles := triangles buf @ ts, numTriangles := numTriangles buf + 2\<rparr>))"

text \<open>\<open>edges\<close> is the sequence in which the range-for visits the map.\<close>

definition GenerateTriangles ::
  "(uint32_t \<times> EdgeInfo) list \<Rightarrow> VoxelIndexMap \<Rightarrow> MeshBuffer \<Rightarrow> error + MeshBuffer" where
  "GenerateTriangles edges indices buf =
     triangles_loop indices edges (buf\<lparr>triangles := []\<rparr>)"

section \<open>MeshGenerator\<close>

definition scan_result :: "env \<Rightarrow> int \<Rightarrow> int \<Rightarrow> int \<Rightarrow> nat \<Rightarrow> scan_state" where
  "scan_result E x y z cellSize =
     FindActiveVoxels E x y z cellSize \<lparr>activeVoxels = [], activeEdges = []\<rparr>"

definition place_result :: "env \<Rightarrow> int \<Rightarrow> int \<Rightarrow> int \<Rightarrow> nat \<Rightarrow> real list \<Rightarrow> place_state" where
  "place_result E x y z cellSize cellData0 =
     (let sc = scan_result E x y z cellSize
      in GenerateVertexData E (iter_voxels E (activeVoxels sc)) (activeEdges sc) Map.empty
           \<lparr>vertices = [], numVertices = 0, triangles = [], numTriangles = 0\<rparr> cellData0)"

definition GenerateMesh :: "env \<Rightarrow> int \<Rightarrow> int \<Rightarrow> int \<Rightarrow> nat \<Rightarrow> real list \<Rightarrow> error + MeshBuffer" where
  "GenerateMesh E x y z cellSize cellData0 =
     (let sc = scan_result E x y z cellSize;
          pl = place_result E x y z cellSize cellData0
      in GenerateTriangles (iter_edges E (activeEdges sc)) (vertexIndices pl)
           ((buffer pl)\<lparr>numTriangles := 0\<rparr>))"


section \<open>Auxiliary definitions for the statements\<close>

text \<open>The absolute density at step \<open>i\<close> of 16 uniform steps from \<open>p0\<close> towards \<open>p1\<close>.\<close>

definition sample_abs :: "env \<Rightarrow> vec4 \<Rightarrow> vec4 \<Rightarrow> nat \<Rightarrow> real" where
  "sample_abs E p0 p1 i = \<bar>Density E (mix4 p0 p1 (real i / 16))\<bar>"

text \<open>The packed edge key of a 3D offset on an axis.\<close>

definition encode_edge_offset :: "nat \<Rightarrow> ivec4 \<Rightarrow> uint32_t" where
  "encode_edge_offset a off = EncodeAxisUniqueID (of_nat a) (ix off) (iy off) (iz off)"

text \<open>
  A concrete environment for the examples: the plane \<open>x = 0\<close> as density field, the
  identity for \<open>glm::normalize\<close>, a solver that returns the first sample position, a
  zero-initialising \<open>vec4\<close> constructor, and containers that iterate in list order.
\<close>

definition plane_env :: env where
  "plane_env =
     \<lparr>Density_Func = (\<lambda>v. fst v),
      glm_normalize = (\<lambda>v. v),
      qef_solve_from_points_4d = (\<lambda>p n k. case p of [] \<Rightarrow> mk_vec4 0 0 0 0 | a # _ \<Rightarrow> a),
      vec4_default = mk_vec4 0 0 0 0,
      iter_voxels = (\<lambda>xs. xs),
      iter_edges = (\<lambda>xs. xs)\<rparr>"

text \<open>
  What the loop body of \<open>GenerateVertexData\<close> computes for one voxel, named for the
  statements: the vertex it would write, the arguments it passes to the solver, and the
  voxels of the iteration sequence that pass the test \<open>idx > 1\<close>.
\<close>

definition voxel_vertex :: "env \<Rightarrow> EdgeInfoMap \<Rightarrow> uint32_t \<Rightarrow> MeshVertex" where
  "voxel_vertex E edges voxelID =
     (let pn = gather edges voxelID;
          n = map snd pn;
          nodeNormal0 = fold (\<lambda>ni acc. vec4_add acc ni) n (vec4_default E)
      in \<lparr>xyz = qef_solve_from_points_4d E (map fst pn) n (length pn),
          vnormal = (if length pn \<noteq> 0 then vec4_scale nodeNormal0 (1 / real (length pn))
                     else nodeNormal0)\<rparr>)"

definition qef_call_of :: "EdgeInfoMap \<Rightarrow> uint32_t \<Rightarrow> vec4 list \<times> vec4 list \<times> nat" where
  "qef_call_of edges v =
     (map fst (gather edges v), map snd (gather edges v), length (gather edges v))"

definition placed :: "EdgeInfoMap \<Rightarrow> uint32_t list \<Rightarrow> uint32_t list" where
  "placed edges voxels = filter (\<lambda>v. 1 < length (gather edges v)) voxels"

text \<open>How many of the 12 canonical edges of a voxel have an entry in the edge map.\<close>

definition recorded_crossings :: "EdgeInfoMap \<Rightarrow> uint32_t \<Rightarrow> nat" where
  "recorded_crossings edges v =
     card {i. i < 12 \<and> map_of edges (v + ENCODED_EDGE_OFFSETS ! i) \<noteq> None}"

text \<open>The normals of those edges, in table order, and the arithmetic mean of vectors.\<close>

definition contributing_normals :: "EdgeInfoMap \<Rightarrow> uint32_t \<Rightarrow> vec4 list" where
  "contributing_normals edges v =
     map normal (List.map_filter (\<lambda>i. map_of edges (v + ENCODED_EDGE_OFFSETS ! i)) [0..<12])"

definition vec4_mean :: "vec4 list \<Rightarrow> vec4" where
  "vec4_mean ns =
     \<lparr>vx = sum_list (map vx ns) / real (length ns),
      vy = sum_list (map vy ns) / real (length ns),
      vz = sum_list (map vz ns) / real (length ns),
      vw = sum_list (map vw ns) / real (length ns)\<rparr>"

text \<open>Small inputs for the examples: two recorded edges at the origin, and two voxels.\<close>

definition demo_edges :: EdgeInfoMap where
  "demo_edges =
     [(0x00000000, \<lparr>pos = mk_vec4 1 0 0 1, normal = mk_vec4 1 0 0 0, winding = True\<rparr>),
      (0x40000000, \<lparr>pos = mk_vec4 0 1 0 1, normal = mk_vec4 0 1 0 0, winding = False\<rparr>)]"

definition demo_voxels :: "uint32_t list" where
  "demo_voxels = [0, 1]"

text \<open>The edge map that the scan of one cell around the origin yields for the plane.\<close>

definition unit_edges :: EdgeInfoMap where
  "unit_edges =
     [(0, \<lparr>pos = mk_vec4 0 (- (1 / 2)) (- (1 / 2)) 1, normal = mk_vec4 (1 / 500) 0 0 0,
           winding = False\<rparr>)]"

definition empty_buffer :: MeshBuffer where
  "empty_buffer = \<lparr>vertices = [], numVertices = 0, triangles = [], numTriangles = 0\<rparr>"

text \<open>
  A range-for over an unordered container hands out every element exactly once, in an
  order of its own: the sequence is a permutation of the content.
\<close>

definition visits_each_once :: "('a list \<Rightarrow> 'a list) \<Rightarrow> 'a list \<Rightarrow> bool" where
  "visits_each_once iter xs = (mset (iter xs) = mset xs)"

text \<open>
  The entry \<open>e\<close> of the edge map is the one \<open>FindActiveVoxels\<close> writes for the edge that
  starts at cell \<open>(x, y, z)\<close> and runs along axis \<open>a\<close>.
\<close>

definition recorded_at ::
  "env \<Rightarrow> int \<Rightarrow> int \<Rightarrow> int \<Rightarrow> nat \<Rightarrow> nat \<Rightarrow> nat \<Rightarrow> nat \<Rightarrow> nat \<Rightarrow> uint32_t \<times> EdgeInfo \<Rightarrow> bool" where
  "recorded_at E wx wy wz n x y z a e =
     (fst e = EncodeAxisUniqueID (of_nat a) (of_nat x) (of_nat y) (of_nat z) \<and>
      snd e = edge_info E (cell_point wx wy wz n x y z)
                (vec4_add (cell_point wx wy wz n x y z) (AXIS_OFFSET ! a)) \<and>
      zeroCrossing (Density E (cell_point wx wy wz n x y z))
        (Density E (vec4_add (cell_point wx wy wz n x y z) (AXIS_OFFSET ! a))))"

text \<open>The invariant of the scanning loops.\<close>

definition scan_inv :: "env \<Rightarrow> int \<Rightarrow> int \<Rightarrow> int \<Rightarrow> nat \<Rightarrow> scan_state \<Rightarrow> bool" where
  "scan_inv E wx wy wz n st =
     ((\<forall>e\<in>set (activeEdges st). \<exists>x<n. \<exists>y<n. \<exists>z<n. \<exists>a<3. recorded_at E wx wy wz n x y z a e) \<and>
      (\<forall>v\<in>set (activeVoxels st). \<exists>x<n. \<exists>y<n. \<exists>z<n.
          v = EncodeVoxelUniqueID (mk_ivec4 (of_nat x) (of_nat y) (of_nat z) 0)) \<and>
      distinct (map fst (activeEdges st)) \<and> distinct (activeVoxels st))"

text \<open>All three coordinates, read as signed \<open>int\<close>, lie in \<open>[0, n)\<close>.\<close>

definition in_grid :: "nat \<Rightarrow> ivec4 \<Rightarrow> bool" where
  "in_grid n d =
     (0 \<le> sint (ix d) \<and> sint (ix d) < int n \<and>
      0 \<le> sint (iy d) \<and> sint (iy d) < int n \<and>
      0 \<le> sint (iz d) \<and> sint (iz d) < int n)"

text \<open>The four entries of \<open>voxelIDs\<close> that \<open>GenerateTriangles\<close> computes for an edge key.\<close>

definition sharing_voxels :: "uint32_t \<Rightarrow> uint32_t list" where
  "sharing_voxels edge =
     map (\<lambda>i. edge_nodeID edge - ENCODED_EDGE_NODE_OFFSETS ! (edge_axis edge * 4 + i)) [0..<4]"

text \<open>
  The closed form of \<open>edge_triangles\<close> for a key whose axis is below 3: two triangles
  over the indices of the four candidates, ordered by the winding flag, when all four
  candidates have an index, and nothing otherwise.
\<close>

definition candidate_triangles :: "VoxelIndexMap \<Rightarrow> uint32_t \<times> EdgeInfo \<Rightarrow> MeshTriangle list" where
  "candidate_triangles vi e =
     (let ids = sharing_voxels (fst e)
      in if list_all (\<lambda>v. vi v \<noteq> None) ids
         then (let v0 = the (vi (ids ! 0)); v1 = the (vi (ids ! 1));
                   v2 = the (vi (ids ! 2)); v3 = the (vi (ids ! 3))
               in if winding (snd e) then [(v0, v1, v3), (v0, v3, v2)]
                  else [(v0, v3, v1), (v0, v2, v3)])
         else [])"

text \<open>The grid point at which the edge of a key starts.\<close>

definition edge_lower_endpoint :: "int \<Rightarrow> int \<Rightarrow> int \<Rightarrow> nat \<Rightarrow> uint32_t \<Rightarrow> vec4" where
  "edge_lower_endpoint wx wy wz n edge =
     (let d = DecodeVoxelUniqueID edge
      in cell_point wx wy wz n (unat (ix d)) (unat (iy d)) (unat (iz d)))"

text \<open>All three indices of a triangle are below \<open>n\<close>.\<close>

definition index_valid :: "nat \<Rightarrow> MeshTriangle \<Rightarrow> bool" where
  "index_valid n t = (fst t < n \<and> fst (snd t) < n \<and> snd (snd t) < n)"

text \<open>
  The corner of \<open>EDGE_NODE_OFFSETS[a]\<close> whose offset entry \<open>4 * a + i\<close> of
  \<open>ENCODED_EDGE_OFFSETS\<close> encodes: on axis 1 the table lists corners 1 and 2 in the
  opposite order.
\<close>

definition edge_offset_corner :: "nat \<Rightarrow> nat \<Rightarrow> nat" where
  "edge_offset_corner a i = (if a = 1 \<and> i = 1 then 2 else if a = 1 \<and> i = 2 then 1 else i)"

text \<open>Every active voxel finds at least one of its 12 canonical edges in the edge map.\<close>

definition voxels_have_edges :: "scan_state \<Rightarrow> bool" where
  "voxels_have_edges st =
     (\<forall>v\<in>set (activeVoxels st). \<exists>j<12. v + ENCODED_EDGE_OFFSETS ! j \<in> fst ` set (activeEdges st))"

text \<open>
  The sample positions of a voxel's recorded edges, in table order, and the three
  arguments the solver is to receive for the voxel.
\<close>

definition contributing_positions :: "EdgeInfoMap \<Rightarrow> uint32_t \<Rightarrow> vec4 list" where
  "contributing_positions edges v =
     map pos (List.map_filter (\<lambda>i. map_of edges (v + ENCODED_EDGE_OFFSETS ! i)) [0..<12])"

definition solver_samples :: "EdgeInfoMap \<Rightarrow> uint32_t \<Rightarrow> vec4 list \<times> vec4 list \<times> nat" where
  "solver_samples edges v =
     (contributing_positions edges v, contributing_normals edges v, recorded_crossings edges v)"

text \<open>
  A second environment for the examples: the region \<open>x < -1/2\<close>, \<open>y < 1/2\<close> is inside
  (negative density), so that the surface has an edge along the \<open>z\<close> axis; the rest is
  as in \<open>plane_env\<close>.  \<open>corner_edges\<close> is the edge map that the scan of two cells per axis
  around the origin yields for it.
\<close>

definition corner_env :: env where
  "corner_env =
     \<lparr>Density_Func = (\<lambda>v. max (fst v + 1 / 2) (fst (snd v) - 1 / 2)),
      glm_normalize = (\<lambda>v. v),
      qef_solve_from_points_4d = (\<lambda>p n k. case p of [] \<Rightarrow> mk_vec4 0 0 0 0 | a # _ \<Rightarrow> a),
      vec4_default = mk_vec4 0 0 0 0,
      iter_voxels = (\<lambda>xs. xs),
      iter_edges = (\<lambda>xs. xs)\<rparr>"

definition corner_edges :: EdgeInfoMap where
  "corner_edges =
     [(0x00000000, edge_info corner_env (mk_vec4 (-1) (-1) (-1) 1) (mk_vec4 0 (-1) (-1) 1)),
      (0x00100000, edge_info corner_env (mk_vec4 (-1) (-1) 0 1) (mk_vec4 0 (-1) 0 1)),
      (0x00000400, edge_info corner_env (mk_vec4 (-1) 0 (-1) 1) (mk_vec4 0 0 (-1) 1)),
      (0x40000400, edge_info corner_env (mk_vec4 (-1) 0 (-1) 1) (mk_vec4 (-1) 1 (-1) 1)),
      (0x00100400, edge_info corner_env (mk_vec4 (-1) 0 0 1) (mk_vec4 0 0 0 1)),
      (0x40100400, edge_info corner_env (mk_vec4 (-1) 0 0 1) (mk_vec4 (-1) 1 0 1))]"

text \<open>
  The statement of the Triangulator's task, from the grid and not from the packed keys.
  \<open>sharing_cells a c\<close> are the four grid cells around the edge that starts at grid point
  \<open>c\<close> and runs along axis \<open>a\<close>, in the corner order of \<open>EDGE_NODE_OFFSETS[a]\<close> (the
  order in which \<open>FindActiveVoxels\<close> visits them), as triples of integers.  A cell with
  a negative coordinate is no voxel of the grid and has no index.  \<open>claimed_quad\<close> is
  what the edge is to contribute: two triangles over the indices of its four cells,
  ordered by the winding flag \<open>w\<close>, when all four have an index, and nothing otherwise.
\<close>

definition sharing_cells :: "nat \<Rightarrow> int \<times> int \<times> int \<Rightarrow> (int \<times> int \<times> int) list" where
  "sharing_cells a c =
     map (\<lambda>off. (fst c - sint (ix off), fst (snd c) - sint (iy off), snd (snd c) - sint (iz off)))
       (EDGE_NODE_OFFSETS ! a)"

definition cell_index :: "VoxelIndexMap \<Rightarrow> int \<times> int \<times> int \<Rightarrow> nat option" where
  "cell_index vi c =
     (case c of (x, y, z) \<Rightarrow>
        if x < 0 \<or> y < 0 \<or> z < 0 then None
        else vi (EncodeVoxelUniqueID (mk_ivec4 (of_int x) (of_int y) (of_int z) 0)))"

definition claimed_quad :: "VoxelIndexMap \<Rightarrow> nat \<Rightarrow> int \<times> int \<times> int \<Rightarrow> bool \<Rightarrow> MeshTriangle list" where
  "claimed_quad vi a c w =
     (let vs = map (cell_index vi) (sharing_cells a c)
      in if list_all (\<lambda>v. v \<noteq> None) vs
         then (let v0 = the (vs ! 0); v1 = the (vs ! 1); v2 = the (vs ! 2); v3 = the (vs ! 3)
               in if w then [(v0, v1, v3), (v0, v3, v2)] else [(v0, v3, v1), (v0, v2, v3)])
         else [])"

section \<open>VoxelIdentity: packing and unpacking\<close>

lemma mask_0x3ff: "(0x3ff :: 32 word) = mask 10"
  by (simp add: mask_eq_exp_minus_1)

lemma take_bit_10_small: "x < 1024 \<Longrightarrow> take_bit 10 (x :: 32 word) = x"
  using less_mask_eq [of x 10] by (simp add: take_bit_eq_mask)

lemma pack_fields:
  fixes a b c :: "32 word"
  shows "take_bit 10 (take_bit 10 a OR push_bit 10 (take_bit 10 b) OR push_bit 20 (take_bit 10 c))
           = take_bit 10 a"
    and "take_bit 10 (drop_bit 10 (take_bit 10 a OR push_bit 10 (take_bit 10 b)
           OR push_bit 20 (take_bit 10 c))) = take_bit 10 b"
    and "take_bit 10 (drop_bit 20 (take_bit 10 a OR push_bit 10 (take_bit 10 b)
           OR push_bit 20 (take_bit 10 c))) = take_bit 10 c"
  by (rule bit_eqI; auto simp add: bit_simps)+

lemma decode_encode_voxel:
  fixes x y z :: "32 word"
  assumes "x < 1024" "y < 1024" "z < 1024"
  shows "DecodeVoxelUniqueID (EncodeVoxelUniqueID (mk_ivec4 x y z w)) = mk_ivec4 x y z 0"
proof -
  have x: "take_bit 10 x = x" and y: "take_bit 10 y = y" and z: "take_bit 10 z = z"
    using assms by (simp_all add: take_bit_10_small)
  show ?thesis
    using pack_fields [of x y z]
    by (simp add: DecodeVoxelUniqueID_def EncodeVoxelUniqueID_def mk_ivec4_def mask_0x3ff x y z
          flip: take_bit_eq_mask)
qed

text \<open>
  Claim C5.  For coordinates \<open>x\<close>, \<open>y\<close>, \<open>z\<close> in \<open>[0, 1024)\<close> (for a 32-bit \<open>int\<close> this
  is the unsigned bound \<open>< 1024\<close>), decoding the encoded voxel returns exactly
  \<open>(x, y, z)\<close>, and two coordinate triples of the domain with the same code are equal.
\<close>

theorem C5_decode_encode:
  fixes x y z x' y' z' :: "32 word"
  assumes "x < 1024" "y < 1024" "z < 1024"
  shows "DecodeVoxelUniqueID (EncodeVoxelUniqueID (mk_ivec4 x y z 0)) = mk_ivec4 x y z 0 \<and>
         (x' < 1024 \<and> y' < 1024 \<and> z' < 1024 \<and>
          EncodeVoxelUniqueID (mk_ivec4 x' y' z' 0) = EncodeVoxelUniqueID (mk_ivec4 x y z 0)
          \<longrightarrow> x' = x \<and> y' = y \<and> z' = z)"
proof (intro conjI impI)
  show "DecodeVoxelUniqueID (EncodeVoxelUniqueID (mk_ivec4 x y z 0)) = mk_ivec4 x y z 0"
    using assms by (rule decode_encode_voxel)
next
  assume h: "x' < 1024 \<and> y' < 1024 \<and> z' < 1024 \<and>
    EncodeVoxelUniqueID (mk_ivec4 x' y' z' 0) = EncodeVoxelUniqueID (mk_ivec4 x y z 0)"
  then have "DecodeVoxelUniqueID (EncodeVoxelUniqueID (mk_ivec4 x' y' z' 0))
           = DecodeVoxelUniqueID (EncodeVoxelUniqueID (mk_ivec4 x y z 0))"
    by simp
  moreover have "DecodeVoxelUniqueID (EncodeVoxelUniqueID (mk_ivec4 x' y' z' 0)) = mk_ivec4 x' y' z' 0"
    using h by (intro decode_encode_voxel) simp_all
  moreover have "DecodeVoxelUniqueID (EncodeVoxelUniqueID (mk_ivec4 x y z 0)) = mk_ivec4 x y z 0"
    using assms by (rule decode_encode_voxel)
  ultimately have "mk_ivec4 x' y' z' 0 = mk_ivec4 x y z 0"
    by simp
  then show "x' = x" "y' = y" "z' = z"
    by (simp_all add: mk_ivec4_def)
qed

theorem C5_decode_encode_witness:
  "DecodeVoxelUniqueID (EncodeVoxelUniqueID (mk_ivec4 5 1023 7 0)) = mk_ivec4 5 1023 7 0 \<and>
   EncodeVoxelUniqueID (mk_ivec4 6 0 7 0) \<noteq> EncodeVoxelUniqueID (mk_ivec4 5 1023 7 0)"
  using C5_decode_encode [of 5 1023 7 6 0 7] by simp

section \<open>EdgeSampler: the 16-step search\<close>

lemma find_loop_inv:
  assumes "\<forall>i<n. sample_abs E p0 p1 i \<le> FLT_MAX"
    and "fold (find_step E p0 p1) [0..<n] (FLT_MAX, 0, 0) = (m, c, t)"
  shows "c = real n / 16 \<and>
         (n = 0 \<longrightarrow> m = FLT_MAX \<and> t = 0) \<and>
         (0 < n \<longrightarrow> (\<exists>k<n. t = real k / 16 \<and> m = sample_abs E p0 p1 k \<and>
             (\<forall>j<n. sample_abs E p0 p1 k \<le> sample_abs E p0 p1 j) \<and>
             (\<forall>j<k. sample_abs E p0 p1 k < sample_abs E p0 p1 j)))"
  using assms
proof (induction n arbitrary: m c t)
  case 0
  then show ?case by simp
next
  case (Suc n)
  obtain m' c' t' where st: "fold (find_step E p0 p1) [0..<n] (FLT_MAX, 0, 0) = (m', c', t')"
    by (cases "fold (find_step E p0 p1) [0..<n] (FLT_MAX, 0, 0)") auto
  have bnd: "\<forall>i<n. sample_abs E p0 p1 i \<le> FLT_MAX" and bn: "sample_abs E p0 p1 n \<le> FLT_MAX"
    using Suc.prems(1) by auto
  note IH = Suc.IH [OF bnd st]
  have c': "c' = real n / 16" using IH by simp
  have step: "find_step E p0 p1 n (m', c', t') = (m, c, t)"
    using Suc.prems(2) st by simp
  have dn: "\<bar>Density E (mix4 p0 p1 c')\<bar> = sample_abs E p0 p1 n"
    by (simp add: sample_abs_def c')
  have c: "c = real (Suc n) / 16"
    using step
    by (auto simp: find_step_def Let_def c' FIND_EDGE_INFO_INCREMENT_def FIND_EDGE_INFO_STEPS_def
          split: if_splits)
  show ?case
  proof (cases "sample_abs E p0 p1 n < m'")
    case True
    then have mt: "m = sample_abs E p0 p1 n" "t = real n / 16"
      using step dn by (auto simp: find_step_def Let_def c')
    have earlier: "\<forall>j<n. sample_abs E p0 p1 n < sample_abs E p0 p1 j"
    proof (cases "n = 0")
      case True then show ?thesis by simp
    next
      case False
      then obtain k where k: "k < n" "m' = sample_abs E p0 p1 k"
        "\<forall>j<n. sample_abs E p0 p1 k \<le> sample_abs E p0 p1 j" using IH by auto
      show ?thesis using True k by force
    qed
    then have "\<forall>j<Suc n. sample_abs E p0 p1 n \<le> sample_abs E p0 p1 j"
      by (auto simp: less_Suc_eq intro: less_imp_le)
    with earlier mt have "\<exists>k<Suc n. t = real k / 16 \<and> m = sample_abs E p0 p1 k \<and>
             (\<forall>j<Suc n. sample_abs E p0 p1 k \<le> sample_abs E p0 p1 j) \<and>
             (\<forall>j<k. sample_abs E p0 p1 k < sample_abs E p0 p1 j)"
      by (intro exI [of _ n]) simp
    with c show ?thesis by simp
  next
    case False
    then have mt: "m = m'" "t = t'"
      using step dn by (auto simp: find_step_def Let_def)
    show ?thesis
    proof (cases "n = 0")
      case True
      then have "m' = FLT_MAX" "t' = 0" using IH by auto
      with False bn True have "sample_abs E p0 p1 0 = FLT_MAX" by simp
      with mt \<open>m' = FLT_MAX\<close> \<open>t' = 0\<close> True c show ?thesis by simp
    next
      case nz: False
      then obtain k where k: "k < n" "t' = real k / 16" "m' = sample_abs E p0 p1 k"
        "\<forall>j<n. sample_abs E p0 p1 k \<le> sample_abs E p0 p1 j"
        "\<forall>j<k. sample_abs E p0 p1 k < sample_abs E p0 p1 j" using IH by auto
      have "\<forall>j<Suc n. sample_abs E p0 p1 k \<le> sample_abs E p0 p1 j"
        using k False by (auto simp: less_Suc_eq)
      with k mt have "\<exists>k<Suc n. t = real k / 16 \<and> m = sample_abs E p0 p1 k \<and>
             (\<forall>j<Suc n. sample_abs E p0 p1 k \<le> sample_abs E p0 p1 j) \<and>
             (\<forall>j<k. sample_abs E p0 p1 k < sample_abs E p0 p1 j)"
        by (intro exI [of _ k]) simp
      with c show ?thesis by simp
    qed
  qed
qed

text \<open>
  Claim C8.  Whenever the 16 sampled absolute densities are floats, that is at most
  \<open>FLT_MAX\<close>, \<open>FindIntersection\<close> returns \<open>k / 16\<close> for the first step \<open>k\<close> among
  \<open>0, \<dots>, 15\<close> whose absolute density is minimal; the result is that sample position
  itself, in \<open>[0, 1]\<close>.
\<close>

theorem C8_FindIntersection:
  assumes "\<forall>i<16. sample_abs E p0 p1 i \<le> FLT_MAX"
  shows "\<exists>k<16. FindIntersection E p0 p1 = real k / 16 \<and>
           (\<forall>j<16. sample_abs E p0 p1 k \<le> sample_abs E p0 p1 j) \<and>
           (\<forall>j<k. sample_abs E p0 p1 k < sample_abs E p0 p1 j) \<and>
           0 \<le> FindIntersection E p0 p1 \<and> FindIntersection E p0 p1 \<le> 1"
proof -
  obtain m c t where st: "fold (find_step E p0 p1) [0..<16] (FLT_MAX, 0, 0) = (m, c, t)"
    by (cases "fold (find_step E p0 p1) [0..<16] (FLT_MAX, 0, 0)") auto
  have t: "FindIntersection E p0 p1 = t"
    by (simp add: FindIntersection_def FIND_EDGE_INFO_STEPS_def st)
  from find_loop_inv [OF assms st] obtain k where k: "k < 16" "t = real k / 16"
     "\<forall>j<16. sample_abs E p0 p1 k \<le> sample_abs E p0 p1 j"
     "\<forall>j<k. sample_abs E p0 p1 k < sample_abs E p0 p1 j" by auto
  show ?thesis
    using k t by (intro exI [of _ k]) auto
qed

lemma plane_samples_bounded:
  "\<forall>i<16. sample_abs plane_env (mk_vec4 (-1/4) 0 0 1) (mk_vec4 (3/4) 0 0 1) i \<le> FLT_MAX"
proof (intro allI impI)
  fix i :: nat assume "i < 16"
  then have "\<bar>- (1 / 4) * (1 - real i / 16) + 3 / 4 * (real i / 16)\<bar> \<le> 1"
    by (simp add: abs_le_iff field_simps)
  then show "sample_abs plane_env (mk_vec4 (-1/4) 0 0 1) (mk_vec4 (3/4) 0 0 1) i \<le> FLT_MAX"
    by (simp add: sample_abs_def Density_def plane_env_def vec3_of_def mix4_def mix1_def
          mk_vec4_def FLT_MAX_def)
qed

theorem C8_FindIntersection_witness:
  "\<exists>k<16. FindIntersection plane_env (mk_vec4 (-1/4) 0 0 1) (mk_vec4 (3/4) 0 0 1) = real k / 16 \<and>
      (\<forall>j<16. sample_abs plane_env (mk_vec4 (-1/4) 0 0 1) (mk_vec4 (3/4) 0 0 1) k
             \<le> sample_abs plane_env (mk_vec4 (-1/4) 0 0 1) (mk_vec4 (3/4) 0 0 1) j) \<and>
      (\<forall>j<k. sample_abs plane_env (mk_vec4 (-1/4) 0 0 1) (mk_vec4 (3/4) 0 0 1) k
             < sample_abs plane_env (mk_vec4 (-1/4) 0 0 1) (mk_vec4 (3/4) 0 0 1) j) \<and>
      0 \<le> FindIntersection plane_env (mk_vec4 (-1/4) 0 0 1) (mk_vec4 (3/4) 0 0 1) \<and>
      FindIntersection plane_env (mk_vec4 (-1/4) 0 0 1) (mk_vec4 (3/4) 0 0 1) \<le> 1"
  using plane_samples_bounded by (rule C8_FindIntersection)

section \<open>VertexPlacer: the loop over the active voxels\<close>

lemma gather_fold:
  "fold (gather_step edges v) is pn =
     pn @ map (\<lambda>info. (pos info, normal info))
            (List.map_filter (\<lambda>i. map_of edges (v + ENCODED_EDGE_OFFSETS ! i)) is)"
  by (induction "is" arbitrary: pn) (auto simp: gather_step_def split: option.splits)

lemma gather_eq:
  "gather edges v =
     map (\<lambda>info. (pos info, normal info))
       (List.map_filter (\<lambda>i. map_of edges (v + ENCODED_EDGE_OFFSETS ! i)) [0..<12])"
  by (simp add: gather_def gather_fold)

lemma gather_le_12: "length (gather edges v) \<le> 12"
proof -
  have "length (List.map_filter f xs) \<le> length xs" for f :: "nat \<Rightarrow> EdgeInfo option" and xs
    by (simp add: map_filter_def)
  from this [of _ "[0..<12]"] show ?thesis
    by (simp add: gather_eq)
qed

lemma place_voxel_fields:
  "idxCounter (place_voxel E edges v st) =
     (if 1 < length (gather edges v) then idxCounter st + 1 else idxCounter st)"
  "vertexIndices (place_voxel E edges v st) =
     (if 1 < length (gather edges v) then (vertexIndices st)(v \<mapsto> idxCounter st) else vertexIndices st)"
  "vertices (buffer (place_voxel E edges v st)) =
     (if 1 < length (gather edges v) then vertices (buffer st) @ [voxel_vertex E edges v]
      else vertices (buffer st))"
  "numVertices (buffer (place_voxel E edges v st)) =
     (if 1 < length (gather edges v) then numVertices (buffer st) + 1 else numVertices (buffer st))"
  "qef_calls (place_voxel E edges v st) = qef_calls st @ [qef_call_of edges v]"
  "triangles (buffer (place_voxel E edges v st)) = triangles (buffer st)"
  "numTriangles (buffer (place_voxel E edges v st)) = numTriangles (buffer st)"
  by (simp_all add: place_voxel_def Let_def voxel_vertex_def qef_call_of_def)

lemma place_loop_counts:
  "idxCounter (fold (place_voxel E edges) voxels st) = idxCounter st + length (placed edges voxels) \<and>
   numVertices (buffer (fold (place_voxel E edges) voxels st))
     = numVertices (buffer st) + length (placed edges voxels) \<and>
   vertices (buffer (fold (place_voxel E edges) voxels st))
     = vertices (buffer st) @ map (voxel_vertex E edges) (placed edges voxels) \<and>
   qef_calls (fold (place_voxel E edges) voxels st) = qef_calls st @ map (qef_call_of edges) voxels \<and>
   triangles (buffer (fold (place_voxel E edges) voxels st)) = triangles (buffer st) \<and>
   numTriangles (buffer (fold (place_voxel E edges) voxels st)) = numTriangles (buffer st)"
  by (induction voxels arbitrary: st) (simp_all add: placed_def place_voxel_fields)

lemma map_add_upd_left_None:
  "f v = None \<Longrightarrow> (m(v \<mapsto> c)) ++ f = m ++ f(v \<mapsto> c)"
  by (auto simp: map_add_def fun_eq_iff split: option.splits)

lemma place_loop_indices:
  "distinct voxels \<Longrightarrow>
   vertexIndices (fold (place_voxel E edges) voxels st) =
     vertexIndices st ++ map_of (zip (placed edges voxels)
        [idxCounter st ..< idxCounter st + length (placed edges voxels)])"
proof (induction voxels arbitrary: st)
  case Nil
  then show ?case by (simp add: placed_def)
next
  case (Cons v voxels)
  show ?case
  proof (cases "1 < length (gather edges v)")
    case False
    then show ?thesis using Cons by (simp add: placed_def place_voxel_fields)
  next
    case True
    let ?K = "placed edges voxels"
    let ?c = "idxCounter st"
    have notin: "v \<notin> set ?K" using Cons.prems by (auto simp: placed_def)
    have up: "[?c ..< ?c + length (placed edges (v # voxels))] = ?c # [Suc ?c ..< Suc ?c + length ?K]"
    proof -
      have "length (placed edges (v # voxels)) = Suc (length ?K)"
        using True by (simp add: placed_def)
      moreover have "[?c ..< ?c + Suc (length ?K)] = ?c # [Suc ?c ..< ?c + Suc (length ?K)]"
        by (rule upt_conv_Cons) simp
      ultimately show ?thesis by simp
    qed
    have "vertexIndices (fold (place_voxel E edges) (v # voxels) st) =
          (vertexIndices st)(v \<mapsto> ?c) ++ map_of (zip ?K [Suc ?c ..< Suc ?c + length ?K])"
      using Cons True by (simp add: place_voxel_fields)
    also have "\<dots> = vertexIndices st ++ (map_of (zip ?K [Suc ?c ..< Suc ?c + length ?K]))(v \<mapsto> ?c)"
    proof -
      have "map_of (zip ?K [Suc ?c ..< Suc ?c + length ?K]) v = None"
        using notin by (auto simp: map_of_eq_None_iff dest: set_zip_leftD)
      then show ?thesis by (rule map_add_upd_left_None)
    qed
    also have "\<dots> = vertexIndices st ++ map_of (zip (placed edges (v # voxels))
        [?c ..< ?c + length (placed edges (v # voxels))])"
      unfolding up using True by (simp add: placed_def)
    finally show ?thesis .
  qed
qed


lemma length_map_filter: "length (List.map_filter f xs) = length (filter (\<lambda>x. f x \<noteq> None) xs)"
  by (induction xs) (auto split: option.splits)

lemma gather_count: "length (gather edges v) = recorded_crossings edges v"
proof -
  have "length (gather edges v)
      = length (filter (\<lambda>i. map_of edges (v + ENCODED_EDGE_OFFSETS ! i) \<noteq> None) [0..<12])"
    by (simp add: gather_eq length_map_filter)
  also have "\<dots> = card {i. i < length [0..<12::nat] \<and>
       map_of edges (v + ENCODED_EDGE_OFFSETS ! ([0..<12] ! i)) \<noteq> None}"
    by (rule length_filter_conv_card)
  also have "\<dots> = recorded_crossings edges v"
    unfolding recorded_crossings_def by (rule arg_cong [where f = card]) auto
  finally show ?thesis .
qed

lemma gather_normals: "map snd (gather edges v) = contributing_normals edges v"
  by (simp add: gather_eq contributing_normals_def comp_def)

lemma placed_conv: "placed edges voxels = filter (\<lambda>v. 2 \<le> recorded_crossings edges v) voxels"
  unfolding placed_def gather_count by (rule filter_cong) auto

lemma GenerateVertexData_fields:
  fixes E voxels edges vi0 buf0 cd0
  defines "st \<equiv> GenerateVertexData E voxels edges vi0 buf0 cd0"
  shows "idxCounter st = length (placed edges voxels)"
    and "numVertices (buffer st) = numVertices buf0 + length (placed edges voxels)"
    and "vertices (buffer st) = map (voxel_vertex E edges) (placed edges voxels)"
    and "qef_calls st = map (qef_call_of edges) voxels"
    and "distinct voxels \<Longrightarrow>
         vertexIndices st = vi0 ++ map_of (zip (placed edges voxels) [0 ..< length (placed edges voxels)])"
  unfolding st_def GenerateVertexData_def
  using place_loop_counts [of E edges voxels]
  by (simp_all add: place_loop_indices)

lemma map_of_zip_upt:
  assumes "distinct K"
  shows "dom (map_of (zip K [0..<length K])) = set K"
    and "ran (map_of (zip K [0..<length K])) = {0..<length K}"
    and "i < length K \<Longrightarrow> map_of (zip K [0..<length K]) (K ! i) = Some i"
    and "map_of (zip K [0..<length K]) v = Some j \<Longrightarrow> j < length K \<and> K ! j = v"
proof -
  show "dom (map_of (zip K [0..<length K])) = set K"
    by simp
  show "ran (map_of (zip K [0..<length K])) = {0..<length K}"
    using assms by (simp add: ran_map_of_zip)
  show "i < length K \<Longrightarrow> map_of (zip K [0..<length K]) (K ! i) = Some i"
    using assms map_of_zip_nth [of K "[0..<length K]" i] by simp
  show "map_of (zip K [0..<length K]) v = Some j \<Longrightarrow> j < length K \<and> K ! j = v"
  proof -
    assume "map_of (zip K [0..<length K]) v = Some j"
    then have "(v, j) \<in> set (zip K [0..<length K])" by (rule map_of_SomeD)
    then obtain n where "n < length K" "K ! n = v" "[0..<length K] ! n = j"
      by (auto simp: set_zip)
    then show ?thesis by simp
  qed
qed

lemma fold_vec4_add:
  "fold (\<lambda>ni acc. vec4_add acc ni) ns a =
     \<lparr>vx = vx a + sum_list (map vx ns), vy = vy a + sum_list (map vy ns),
      vz = vz a + sum_list (map vz ns), vw = vw a + sum_list (map vw ns)\<rparr>"
  by (induction ns arbitrary: a) (simp_all add: vec4_add_def add.assoc)

lemma voxel_vertex_normal:
  assumes "vec4_default E = mk_vec4 0 0 0 0" "gather edges v \<noteq> []"
  shows "vnormal (voxel_vertex E edges v) = vec4_mean (contributing_normals edges v)"
proof -
  have len: "length (contributing_normals edges v) = length (gather edges v)"
    by (simp flip: gather_normals)
  show ?thesis
    using assms
    by (simp add: voxel_vertex_def Let_def fold_vec4_add gather_normals vec4_mean_def
        vec4_scale_def mk_vec4_def len)
qed

text \<open>
  Claim C3.  The range-for visits every voxel of the set once (\<open>distinct voxels\<close>) and
  the index map starts empty.  A voxel with at least 2 recorded crossings among its 12
  canonical edges gets an index, and the vertex array holds its vertex at that index; a
  voxel with 0 or 1 gets no index; and the vertex array has exactly one entry per voxel
  with at least 2, so none is appended for the others.
\<close>

theorem C3_vertex_iff_two_crossings:
  assumes "distinct voxels"
  shows "(\<forall>v\<in>set voxels.
           (2 \<le> recorded_crossings edges v \<longrightarrow>
              (\<exists>i. vertexIndices (GenerateVertexData E voxels edges Map.empty buf0 cd0) v = Some i \<and>
                   i < length (vertices (buffer (GenerateVertexData E voxels edges Map.empty buf0 cd0))) \<and>
                   vertices (buffer (GenerateVertexData E voxels edges Map.empty buf0 cd0)) ! i
                     = voxel_vertex E edges v)) \<and>
           (recorded_crossings edges v < 2 \<longrightarrow>
              vertexIndices (GenerateVertexData E voxels edges Map.empty buf0 cd0) v = None)) \<and>
         length (vertices (buffer (GenerateVertexData E voxels edges Map.empty buf0 cd0)))
           = length (filter (\<lambda>v. 2 \<le> recorded_crossings edges v) voxels)"
proof -
  let ?st = "GenerateVertexData E voxels edges Map.empty buf0 cd0"
  let ?K = "placed edges voxels"
  have dK: "distinct ?K" using assms by (simp add: placed_def)
  have vi: "vertexIndices ?st = map_of (zip ?K [0..<length ?K])"
    using GenerateVertexData_fields(5) [OF assms, of E edges Map.empty buf0 cd0] by simp
  have vs: "vertices (buffer ?st) = map (voxel_vertex E edges) ?K"
    by (rule GenerateVertexData_fields)
  have "\<exists>i. vertexIndices ?st v = Some i \<and> i < length (vertices (buffer ?st)) \<and>
            vertices (buffer ?st) ! i = voxel_vertex E edges v"
    if "v \<in> set voxels" "2 \<le> recorded_crossings edges v" for v
  proof -
    from that have "v \<in> set ?K" by (simp add: placed_conv)
    then obtain i where i: "i < length ?K" "?K ! i = v" by (auto simp: in_set_conv_nth)
    then have "vertexIndices ?st v = Some i"
      using map_of_zip_upt(3) [OF dK, of i] by (simp add: vi)
    with i show ?thesis by (auto simp: vs)
  qed
  moreover have "vertexIndices ?st v = None" if "recorded_crossings edges v < 2" for v
  proof -
    from that have "v \<notin> set ?K" by (simp add: placed_conv)
    then have "v \<notin> dom (vertexIndices ?st)"
      using map_of_zip_upt(1) [OF dK] by (simp add: vi)
    then show ?thesis by auto
  qed
  moreover have "length (vertices (buffer ?st))
      = length (filter (\<lambda>v. 2 \<le> recorded_crossings edges v) voxels)"
    by (simp add: vs placed_conv)
  ultimately show ?thesis by blast
qed

lemma demo_gather:
  "gather demo_edges 0 = [(mk_vec4 1 0 0 1, mk_vec4 1 0 0 0), (mk_vec4 0 1 0 1, mk_vec4 0 1 0 0)]"
  "gather demo_edges 1 = []"
  by (simp_all add: gather_def gather_step_def demo_edges_def ENCODED_EDGE_OFFSETS_def
        upt_conv_Cons)

lemma demo_crossings: "recorded_crossings demo_edges 0 = 2" "recorded_crossings demo_edges 1 = 0"
  by (simp_all flip: gather_count add: demo_gather)

lemma demo_distinct: "distinct demo_voxels"
  by (simp add: demo_voxels_def)

theorem C3_vertex_iff_two_crossings_witness:
  "(\<exists>i. vertexIndices (GenerateVertexData plane_env demo_voxels demo_edges Map.empty empty_buffer []) 0
          = Some i \<and>
        i < length (vertices (buffer
              (GenerateVertexData plane_env demo_voxels demo_edges Map.empty empty_buffer []))) \<and>
        vertices (buffer (GenerateVertexData plane_env demo_voxels demo_edges Map.empty empty_buffer []))
          ! i = voxel_vertex plane_env demo_edges 0) \<and>
   vertexIndices (GenerateVertexData plane_env demo_voxels demo_edges Map.empty empty_buffer []) 1 = None \<and>
   length (vertices (buffer
      (GenerateVertexData plane_env demo_voxels demo_edges Map.empty empty_buffer []))) = 1"
proof -
  note T = C3_vertex_iff_two_crossings [OF demo_distinct, of demo_edges plane_env empty_buffer "[]"]
  have m0: "0 \<in> set demo_voxels" and m1: "1 \<in> set demo_voxels"
    by (simp_all add: demo_voxels_def)
  have c0: "2 \<le> recorded_crossings demo_edges 0" and c1: "recorded_crossings demo_edges 1 < 2"
    by (simp_all add: demo_crossings)
  have f: "filter (\<lambda>v. 2 \<le> recorded_crossings demo_edges v) demo_voxels = [0]"
    by (simp add: demo_voxels_def demo_crossings)
  note a0 = T [THEN conjunct1, THEN bspec, OF m0, THEN conjunct1, THEN mp, OF c0]
  note a1 = T [THEN conjunct1, THEN bspec, OF m1, THEN conjunct2, THEN mp, OF c1]
  note a2 = T [THEN conjunct2]
  show ?thesis using a0 a1 a2 by (simp add: f)
qed

text \<open>
  Claim C10.  With the set visited once per voxel, the index map initially empty and
  \<open>numVertices\<close> initially 0 (as \<open>GenerateMesh\<close> calls it): the values of the index map
  are exactly \<open>0, \<dots>, numVertices - 1\<close>; the map has \<open>numVertices\<close> entries, and the
  vertex array as many slots; and the \<open>i\<close>-th voxel, in iteration order, among those that
  pass the test has index \<open>i\<close> and its vertex in slot \<open>i\<close>.
\<close>

theorem C10_sequential_indices:
  assumes "distinct voxels" "numVertices buf0 = 0"
  shows "ran (vertexIndices (GenerateVertexData E voxels edges Map.empty buf0 cd0))
           = {0 ..< numVertices (buffer (GenerateVertexData E voxels edges Map.empty buf0 cd0))} \<and>
         card (dom (vertexIndices (GenerateVertexData E voxels edges Map.empty buf0 cd0)))
           = numVertices (buffer (GenerateVertexData E voxels edges Map.empty buf0 cd0)) \<and>
         length (vertices (buffer (GenerateVertexData E voxels edges Map.empty buf0 cd0)))
           = numVertices (buffer (GenerateVertexData E voxels edges Map.empty buf0 cd0)) \<and>
         (\<forall>i < numVertices (buffer (GenerateVertexData E voxels edges Map.empty buf0 cd0)).
            vertexIndices (GenerateVertexData E voxels edges Map.empty buf0 cd0)
              (filter (\<lambda>v. 2 \<le> recorded_crossings edges v) voxels ! i) = Some i \<and>
            vertices (buffer (GenerateVertexData E voxels edges Map.empty buf0 cd0)) ! i
              = voxel_vertex E edges (filter (\<lambda>v. 2 \<le> recorded_crossings edges v) voxels ! i))"
proof -
  let ?st = "GenerateVertexData E voxels edges Map.empty buf0 cd0"
  let ?K = "placed edges voxels"
  have dK: "distinct ?K" using assms by (simp add: placed_def)
  have vi: "vertexIndices ?st = map_of (zip ?K [0..<length ?K])"
    using GenerateVertexData_fields(5) [OF assms(1), of E edges Map.empty buf0 cd0] by simp
  have vs: "vertices (buffer ?st) = map (voxel_vertex E edges) ?K"
    by (rule GenerateVertexData_fields)
  have nv: "numVertices (buffer ?st) = length ?K"
    using GenerateVertexData_fields(2) [of E voxels edges Map.empty buf0 cd0] assms(2) by simp
  have "ran (vertexIndices ?st) = {0 ..< numVertices (buffer ?st)}"
    using map_of_zip_upt(2) [OF dK] by (simp add: vi nv)
  moreover have "card (dom (vertexIndices ?st)) = numVertices (buffer ?st)"
    using map_of_zip_upt(1) [OF dK] dK by (simp add: vi nv distinct_card)
  moreover have "length (vertices (buffer ?st)) = numVertices (buffer ?st)"
    by (simp add: vs nv)
  moreover have "vertexIndices ?st (?K ! i) = Some i \<and>
      vertices (buffer ?st) ! i = voxel_vertex E edges (?K ! i)"
    if "i < numVertices (buffer ?st)" for i
    using that map_of_zip_upt(3) [OF dK, of i] by (simp add: vi nv vs)
  ultimately show ?thesis
    unfolding placed_conv [symmetric] by blast
qed

theorem C10_sequential_indices_witness:
  "ran (vertexIndices (GenerateVertexData plane_env demo_voxels demo_edges Map.empty empty_buffer []))
     = {0 ..< numVertices (buffer
          (GenerateVertexData plane_env demo_voxels demo_edges Map.empty empty_buffer []))} \<and>
   card (dom (vertexIndices (GenerateVertexData plane_env demo_voxels demo_edges Map.empty empty_buffer [])))
     = numVertices (buffer (GenerateVertexData plane_env demo_voxels demo_edges Map.empty empty_buffer [])) \<and>
   numVertices (buffer (GenerateVertexData plane_env demo_voxels demo_edges Map.empty empty_buffer [])) = 1"
proof -
  have z: "numVertices empty_buffer = 0" by (simp add: empty_buffer_def)
  have "numVertices (buffer (GenerateVertexData plane_env demo_voxels demo_edges Map.empty empty_buffer []))
      = 1"
    using GenerateVertexData_fields(2) [of plane_env demo_voxels demo_edges Map.empty empty_buffer "[]"]
    by (simp add: z placed_def demo_gather demo_voxels_def)
  with C10_sequential_indices [OF demo_distinct z, of plane_env demo_edges "[]"]
  show ?thesis by blast
qed

text \<open>
  Claim C9.  Provided a default-constructed \<open>vec4\<close> is the zero vector, every voxel that
  has an index has at least 2 contributing normals, and the normal stored with its vertex
  is their componentwise sum divided by their number, with nothing applied afterwards.
\<close>

theorem C9_vertex_normal_mean:
  assumes "vec4_default E = mk_vec4 0 0 0 0" "distinct voxels"
  shows "\<forall>v i. vertexIndices (GenerateVertexData E voxels edges Map.empty buf0 cd0) v = Some i \<longrightarrow>
           2 \<le> length (contributing_normals edges v) \<and>
           vnormal (vertices (buffer (GenerateVertexData E voxels edges Map.empty buf0 cd0)) ! i)
             = vec4_mean (contributing_normals edges v)"
proof (intro allI impI)
  fix v i
  let ?st = "GenerateVertexData E voxels edges Map.empty buf0 cd0"
  let ?K = "placed edges voxels"
  assume a: "vertexIndices ?st v = Some i"
  have dK: "distinct ?K" using assms by (simp add: placed_def)
  have vi: "vertexIndices ?st = map_of (zip ?K [0..<length ?K])"
    using GenerateVertexData_fields(5) [OF assms(2), of E edges Map.empty buf0 cd0] by simp
  have vs: "vertices (buffer ?st) = map (voxel_vertex E edges) ?K"
    by (rule GenerateVertexData_fields)
  from a have i: "i < length ?K" "?K ! i = v"
    using map_of_zip_upt(4) [OF dK, of v i] by (simp_all add: vi)
  then have "v \<in> set ?K" by (auto simp: in_set_conv_nth)
  then have two: "1 < length (gather edges v)" by (simp add: placed_def)
  then have ne: "gather edges v \<noteq> []" by auto
  have "vnormal (vertices (buffer ?st) ! i) = vnormal (voxel_vertex E edges v)"
    using i by (simp add: vs)
  also have "\<dots> = vec4_mean (contributing_normals edges v)"
    using assms(1) ne by (rule voxel_vertex_normal)
  finally show "2 \<le> length (contributing_normals edges v) \<and>
      vnormal (vertices (buffer ?st) ! i) = vec4_mean (contributing_normals edges v)"
    using two by (simp flip: gather_normals)
qed

lemma plane_default: "vec4_default plane_env = mk_vec4 0 0 0 0"
  by (simp add: plane_env_def)

theorem C9_vertex_normal_mean_witness:
  "vertexIndices (GenerateVertexData plane_env demo_voxels demo_edges Map.empty empty_buffer []) 0
     = Some 0 \<and>
   2 \<le> length (contributing_normals demo_edges 0) \<and>
   vnormal (vertices (buffer
       (GenerateVertexData plane_env demo_voxels demo_edges Map.empty empty_buffer [])) ! 0)
     = vec4_mean (contributing_normals demo_edges 0) \<and>
   vec4_mean (contributing_normals demo_edges 0) = mk_vec4 (1/2) (1/2) 0 0"
proof -
  have vi: "vertexIndices (GenerateVertexData plane_env demo_voxels demo_edges Map.empty empty_buffer []) 0
      = Some 0"
    using GenerateVertexData_fields(5) [OF demo_distinct, of plane_env demo_edges Map.empty empty_buffer "[]"]
    by (simp add: placed_def demo_gather demo_voxels_def)
  have "contributing_normals demo_edges 0 = [mk_vec4 1 0 0 0, mk_vec4 0 1 0 0]"
    by (simp flip: gather_normals add: demo_gather)
  then have "vec4_mean (contributing_normals demo_edges 0) = mk_vec4 (1/2) (1/2) 0 0"
    by (simp add: vec4_mean_def mk_vec4_def)
  with vi C9_vertex_normal_mean [OF plane_default demo_distinct, of demo_edges empty_buffer "[]"]
  show ?thesis by blast
qed

section \<open>Edge keys\<close>

lemma not_c_mask: "(NOT 0xc0000000 :: 32 word) = mask 30"
  by (simp add: mask_eq_exp_minus_1)

lemma mask_0xff: "(0xff :: 32 word) = mask 8"
  by (simp add: mask_eq_exp_minus_1)

lemma edge_key_fields:
  fixes a b c d :: "32 word"
  shows "take_bit 8 (drop_bit 30 (take_bit 10 a OR push_bit 10 (take_bit 10 b)
           OR push_bit 20 (take_bit 10 c) OR push_bit 30 (take_bit 2 d))) = take_bit 2 d"
    and "take_bit 30 (take_bit 10 a OR push_bit 10 (take_bit 10 b)
           OR push_bit 20 (take_bit 10 c) OR push_bit 30 (take_bit 2 d))
         = take_bit 10 a OR push_bit 10 (take_bit 10 b) OR push_bit 20 (take_bit 10 c)"
    and "take_bit 10 (take_bit 10 a OR push_bit 10 (take_bit 10 b)
           OR push_bit 20 (take_bit 10 c) OR push_bit 30 (take_bit 2 d)) = take_bit 10 a"
    and "take_bit 10 (drop_bit 10 (take_bit 10 a OR push_bit 10 (take_bit 10 b)
           OR push_bit 20 (take_bit 10 c) OR push_bit 30 (take_bit 2 d))) = take_bit 10 b"
    and "take_bit 10 (drop_bit 20 (take_bit 10 a OR push_bit 10 (take_bit 10 b)
           OR push_bit 20 (take_bit 10 c) OR push_bit 30 (take_bit 2 d))) = take_bit 10 c"
  by (rule bit_eqI; auto simp add: bit_simps)+

lemma of_nat_small: "x < 1024 \<Longrightarrow> (of_nat x :: 32 word) < 1024"
  by (simp add: word_less_nat_alt unat_of_nat)

lemma take_bit_2_small: "a < 4 \<Longrightarrow> take_bit 2 (a :: 32 word) = a"
  using less_mask_eq [of a 2] by (simp add: take_bit_eq_mask)

lemma edge_key_decode:
  fixes X Y Z A :: "32 word"
  assumes "X < 1024" "Y < 1024" "Z < 1024" "A < 4"
  shows "edge_axis (EncodeAxisUniqueID A X Y Z) = unat A"
    and "edge_nodeID (EncodeAxisUniqueID A X Y Z) = EncodeVoxelUniqueID (mk_ivec4 X Y Z 0)"
    and "DecodeVoxelUniqueID (EncodeAxisUniqueID A X Y Z) = mk_ivec4 X Y Z 0"
proof -
  have x: "take_bit 10 X = X" and y: "take_bit 10 Y = Y" and z: "take_bit 10 Z = Z"
    and a: "take_bit 2 A = A"
    using assms by (simp_all add: take_bit_10_small take_bit_2_small)
  note F = edge_key_fields [of X Y Z A, unfolded x y z a]
  have enc: "EncodeAxisUniqueID A X Y Z = X OR push_bit 10 Y OR push_bit 20 Z OR push_bit 30 A"
    by (simp add: EncodeAxisUniqueID_def)
  have "edge_axis (EncodeAxisUniqueID A X Y Z)
      = unat (take_bit 8 (drop_bit 30 (X OR push_bit 10 Y OR push_bit 20 Z OR push_bit 30 A)))"
    unfolding enc edge_axis_def mask_0xff take_bit_eq_mask ..
  then show "edge_axis (EncodeAxisUniqueID A X Y Z) = unat A"
    by (simp only: F(1))
  have "edge_nodeID (EncodeAxisUniqueID A X Y Z)
      = take_bit 30 (X OR push_bit 10 Y OR push_bit 20 Z OR push_bit 30 A)"
    unfolding enc edge_nodeID_def not_c_mask take_bit_eq_mask ..
  then show "edge_nodeID (EncodeAxisUniqueID A X Y Z) = EncodeVoxelUniqueID (mk_ivec4 X Y Z 0)"
    by (simp only: F(2)) (simp add: EncodeVoxelUniqueID_def mk_ivec4_def)
  have "DecodeVoxelUniqueID (EncodeAxisUniqueID A X Y Z)
      = mk_ivec4 (take_bit 10 (X OR push_bit 10 Y OR push_bit 20 Z OR push_bit 30 A))
          (take_bit 10 (drop_bit 10 (X OR push_bit 10 Y OR push_bit 20 Z OR push_bit 30 A)))
          (take_bit 10 (drop_bit 20 (X OR push_bit 10 Y OR push_bit 20 Z OR push_bit 30 A))) 0"
    unfolding enc DecodeVoxelUniqueID_def mask_0x3ff take_bit_eq_mask ..
  then show "DecodeVoxelUniqueID (EncodeAxisUniqueID A X Y Z) = mk_ivec4 X Y Z 0"
    by (simp only: F(3,4,5))
qed

section \<open>ActiveVoxelScanner: what the loops record\<close>

lemma fold_invariant:
  assumes "P s" and "\<And>x s. x \<in> set xs \<Longrightarrow> P s \<Longrightarrow> P (f x s)"
  shows "P (fold f xs s)"
  using assms by (induction xs arbitrary: s) auto

lemma set_AList_update: "set (AList.update k v al) \<subseteq> insert (k, v) (set al)"
  by (induction al) auto

lemma offsets_shape:
  assumes "axis < 3" "i < 4"
  shows "iw (EDGE_NODE_OFFSETS ! axis ! i) = 0"
    and "ix (EDGE_NODE_OFFSETS ! axis ! i) = 0 \<or> ix (EDGE_NODE_OFFSETS ! axis ! i) = 1"
    and "iy (EDGE_NODE_OFFSETS ! axis ! i) = 0 \<or> iy (EDGE_NODE_OFFSETS ! axis ! i) = 1"
    and "iz (EDGE_NODE_OFFSETS ! axis ! i) = 0 \<or> iz (EDGE_NODE_OFFSETS ! axis ! i) = 1"
proof -
  from assms have "axis = 0 \<or> axis = 1 \<or> axis = 2" and "i = 0 \<or> i = 1 \<or> i = 2 \<or> i = 3"
    by auto
  then show "iw (EDGE_NODE_OFFSETS ! axis ! i) = 0"
    and "ix (EDGE_NODE_OFFSETS ! axis ! i) = 0 \<or> ix (EDGE_NODE_OFFSETS ! axis ! i) = 1"
    and "iy (EDGE_NODE_OFFSETS ! axis ! i) = 0 \<or> iy (EDGE_NODE_OFFSETS ! axis ! i) = 1"
    and "iz (EDGE_NODE_OFFSETS ! axis ! i) = 0 \<or> iz (EDGE_NODE_OFFSETS ! axis ! i) = 1"
    by (auto simp: EDGE_NODE_OFFSETS_def mk_ivec4_def)
qed

lemma sub_coord:
  assumes "x < n" "ox = 0 \<or> ox = 1" "\<not> sint (of_nat x - ox :: 32 word) < 0"
  shows "\<exists>x'<n. of_nat x - ox = (of_nat x' :: 32 word)"
proof (cases "ox = 0")
  case True
  with assms(1) show ?thesis by auto
next
  case False
  then have ox: "ox = 1" using assms(2) by simp
  show ?thesis
  proof (cases x)
    case 0
    with assms(3) ox show ?thesis by simp
  next
    case (Suc k)
    then have "of_nat x - ox = (of_nat k :: 32 word)" using ox by simp
    moreover have "k < n" using Suc assms(1) by simp
    ultimately show ?thesis by blast
  qed
qed

lemma add_node_inv:
  assumes "x < n" "y < n" "z < n" "axis < 3" "i < 4"
    and "(\<forall>v\<in>set vs. \<exists>x<n. \<exists>y<n. \<exists>z<n.
          v = EncodeVoxelUniqueID (mk_ivec4 (of_nat x) (of_nat y) (of_nat z) 0)) \<and> distinct vs"
  shows "(\<forall>v\<in>set (add_node (mk_ivec4 (of_nat x) (of_nat y) (of_nat z) 0) axis i vs).
          \<exists>x<n. \<exists>y<n. \<exists>z<n.
          v = EncodeVoxelUniqueID (mk_ivec4 (of_nat x) (of_nat y) (of_nat z) 0)) \<and>
         distinct (add_node (mk_ivec4 (of_nat x) (of_nat y) (of_nat z) 0) axis i vs)"
proof -
  define ox where "ox = ix (EDGE_NODE_OFFSETS ! axis ! i)"
  define oy where "oy = iy (EDGE_NODE_OFFSETS ! axis ! i)"
  define oz where "oz = iz (EDGE_NODE_OFFSETS ! axis ! i)"
  have o: "ox = 0 \<or> ox = 1" "oy = 0 \<or> oy = 1" "oz = 0 \<or> oz = 1"
    and w: "iw (EDGE_NODE_OFFSETS ! axis ! i) = 0"
    using offsets_shape [OF assms(4,5)] by (simp_all add: ox_def oy_def oz_def)
  have node: "ivec4_sub (mk_ivec4 (of_nat x) (of_nat y) (of_nat z) 0) (EDGE_NODE_OFFSETS ! axis ! i)
      = mk_ivec4 (of_nat x - ox) (of_nat y - oy) (of_nat z - oz) 0"
    by (simp add: ivec4_sub_def mk_ivec4_def ox_def oy_def oz_def w)
  have sel: "ix (mk_ivec4 a b c d) = a" "iy (mk_ivec4 a b c d) = b" "iz (mk_ivec4 a b c d) = c"
    for a b c d by (simp_all add: mk_ivec4_def)
  show ?thesis
  proof (cases "sint (of_nat x - ox :: 32 word) < 0 \<or> sint (of_nat y - oy :: 32 word) < 0
                 \<or> sint (of_nat z - oz :: 32 word) < 0")
    case True
    then have "add_node (mk_ivec4 (of_nat x) (of_nat y) (of_nat z) 0) axis i vs = vs"
      unfolding add_node_def node Let_def sel by simp
    with assms(6) show ?thesis by simp
  next
    case False
    then have eq: "add_node (mk_ivec4 (of_nat x) (of_nat y) (of_nat z) 0) axis i vs
        = List.insert (EncodeVoxelUniqueID (mk_ivec4 (of_nat x - ox) (of_nat y - oy) (of_nat z - oz) 0)) vs"
      unfolding add_node_def node Let_def sel by simp
    from False obtain x' y' z' where "x' < n" "of_nat x - ox = (of_nat x' :: 32 word)"
      "y' < n" "of_nat y - oy = (of_nat y' :: 32 word)"
      "z' < n" "of_nat z - oz = (of_nat z' :: 32 word)"
      using sub_coord [OF assms(1) o(1)] sub_coord [OF assms(2) o(2)] sub_coord [OF assms(3) o(3)]
      by blast
    then have "\<exists>x'<n. \<exists>y'<n. \<exists>z'<n.
        EncodeVoxelUniqueID (mk_ivec4 (of_nat x - ox) (of_nat y - oy) (of_nat z - oz) 0)
          = EncodeVoxelUniqueID (mk_ivec4 (of_nat x') (of_nat y') (of_nat z') 0)"
      by metis
    with assms(6) show ?thesis unfolding eq by auto
  qed
qed

lemma scan_axis_inv:
  assumes "x < n" "y < n" "z < n" "a < 3" "scan_inv E wx wy wz n st"
  shows "scan_inv E wx wy wz n (scan_axis E (cell_point wx wy wz n x y z) x y z a st)"
proof (cases "zeroCrossing (Density E (cell_point wx wy wz n x y z))
                (Density E (vec4_add (cell_point wx wy wz n x y z) (AXIS_OFFSET ! a)))")
  case False
  then show ?thesis using assms(5) by (simp add: scan_axis_def Let_def)
next
  case True
  let ?p = "cell_point wx wy wz n x y z"
  let ?e = "(EncodeAxisUniqueID (of_nat a) (of_nat x) (of_nat y) (of_nat z),
             edge_info E ?p (vec4_add ?p (AXIS_OFFSET ! a)))"
  let ?vs = "fold (add_node (mk_ivec4 (of_nat x) (of_nat y) (of_nat z) 0) a) [0..<4] (activeVoxels st)"
  have eq: "scan_axis E ?p x y z a st =
      \<lparr>activeVoxels = ?vs, activeEdges = AList.update (fst ?e) (snd ?e) (activeEdges st)\<rparr>"
    using True by (simp add: scan_axis_def Let_def)
  have rec: "recorded_at E wx wy wz n x y z a ?e"
    using True by (simp add: recorded_at_def)
  have edges: "\<forall>e\<in>set (AList.update (fst ?e) (snd ?e) (activeEdges st)).
      \<exists>x<n. \<exists>y<n. \<exists>z<n. \<exists>a<3. recorded_at E wx wy wz n x y z a e"
  proof
    fix e assume "e \<in> set (AList.update (fst ?e) (snd ?e) (activeEdges st))"
    then have "e = ?e \<or> e \<in> set (activeEdges st)"
      using set_AList_update [of "fst ?e" "snd ?e" "activeEdges st"] by auto
    then show "\<exists>x<n. \<exists>y<n. \<exists>z<n. \<exists>a<3. recorded_at E wx wy wz n x y z a e"
      using rec assms unfolding scan_inv_def by blast
  qed
  have voxels: "(\<forall>v\<in>set ?vs. \<exists>x<n. \<exists>y<n. \<exists>z<n.
          v = EncodeVoxelUniqueID (mk_ivec4 (of_nat x) (of_nat y) (of_nat z) 0)) \<and> distinct ?vs"
  proof (rule fold_invariant [where P = "\<lambda>vs. (\<forall>v\<in>set vs. \<exists>x<n. \<exists>y<n. \<exists>z<n.
          v = EncodeVoxelUniqueID (mk_ivec4 (of_nat x) (of_nat y) (of_nat z) 0)) \<and> distinct vs"])
    show "(\<forall>v\<in>set (activeVoxels st). \<exists>x<n. \<exists>y<n. \<exists>z<n.
          v = EncodeVoxelUniqueID (mk_ivec4 (of_nat x) (of_nat y) (of_nat z) 0)) \<and>
          distinct (activeVoxels st)"
      using assms(5) by (simp add: scan_inv_def)
  next
    fix i vs
    assume "i \<in> set [0..<4]"
      and "(\<forall>v\<in>set vs. \<exists>x<n. \<exists>y<n. \<exists>z<n.
          v = EncodeVoxelUniqueID (mk_ivec4 (of_nat x) (of_nat y) (of_nat z) 0)) \<and> distinct vs"
    then show "(\<forall>v\<in>set (add_node (mk_ivec4 (of_nat x) (of_nat y) (of_nat z) 0) a i vs).
          \<exists>x<n. \<exists>y<n. \<exists>z<n.
          v = EncodeVoxelUniqueID (mk_ivec4 (of_nat x) (of_nat y) (of_nat z) 0)) \<and>
         distinct (add_node (mk_ivec4 (of_nat x) (of_nat y) (of_nat z) 0) a i vs)"
      by (intro add_node_inv assms(1-4)) simp_all
  qed
  show ?thesis
    unfolding eq scan_inv_def
    using edges voxels assms(5) by (simp add: scan_inv_def distinct_update)
qed

lemma scan_cell_inv:
  assumes "x < n" "y < n" "z < n" "scan_inv E wx wy wz n st"
  shows "scan_inv E wx wy wz n (scan_cell E wx wy wz n x y z st)"
  unfolding scan_cell_def Let_def
proof (rule fold_invariant [where P = "scan_inv E wx wy wz n"])
  show "scan_inv E wx wy wz n st" by (rule assms)
next
  fix a s assume "a \<in> set [0..<3]" "scan_inv E wx wy wz n s"
  then show "scan_inv E wx wy wz n (scan_axis E (cell_point wx wy wz n x y z) x y z a s)"
    using assms(1-3) by (intro scan_axis_inv) simp_all
qed

lemma FindActiveVoxels_inv:
  assumes "scan_inv E wx wy wz n st"
  shows "scan_inv E wx wy wz n (FindActiveVoxels E wx wy wz n st)"
  unfolding FindActiveVoxels_def
proof (rule fold_invariant [where P = "scan_inv E wx wy wz n"])
  show "scan_inv E wx wy wz n st" by (rule assms)
next
  fix x s assume x: "x \<in> set [0..<n]" and s: "scan_inv E wx wy wz n s"
  show "scan_inv E wx wy wz n
          (fold (\<lambda>y. fold (\<lambda>z. scan_cell E wx wy wz n x y z) [0..<n]) [0..<n] s)"
  proof (rule fold_invariant [where P = "scan_inv E wx wy wz n"])
    show "scan_inv E wx wy wz n s" by (rule s)
  next
    fix y s' assume y: "y \<in> set [0..<n]" and s': "scan_inv E wx wy wz n s'"
    show "scan_inv E wx wy wz n (fold (\<lambda>z. scan_cell E wx wy wz n x y z) [0..<n] s')"
    proof (rule fold_invariant [where P = "scan_inv E wx wy wz n"])
      show "scan_inv E wx wy wz n s'" by (rule s')
    next
      fix z s'' assume "z \<in> set [0..<n]" "scan_inv E wx wy wz n s''"
      then show "scan_inv E wx wy wz n (scan_cell E wx wy wz n x y z s'')"
        using x y by (intro scan_cell_inv) simp_all
    qed
  qed
qed

lemma scan_result_inv: "scan_inv E wx wy wz n (scan_result E wx wy wz n)"
  unfolding scan_result_def by (rule FindActiveVoxels_inv) (simp add: scan_inv_def)

lemma sint_small:
  fixes w :: "32 word"
  assumes "w < 1024"
  shows "sint w = uint w" "0 \<le> sint w" "sint w < 1024"
proof -
  have u: "uint w < 1024" using assms by (simp add: word_less_def)
  have "signed_take_bit 31 (uint w) = uint w"
  proof (rule signed_take_bit_int_eq_self)
    have "0 \<le> uint w" by simp
    moreover have "- (2 ^ 31) \<le> (0::int)" by simp
    ultimately show "- (2 ^ 31) \<le> uint w" by (rule order_trans [rotated])
    show "uint w < 2 ^ 31" using u by simp
  qed
  then show "sint w = uint w"
    by (simp add: sint_uint)
  then show "0 \<le> sint w" "sint w < 1024" using u by simp_all
qed

lemma and_0x3ff_less: "(w AND 0x3ff :: 32 word) < 1024"
  using and_mask_less' [of 10 w] by (simp add: mask_0x3ff)

lemma sint_of_nat_small: "x < 1024 \<Longrightarrow> sint (of_nat x :: 32 word) = int x"
  using sint_small(1) [of "of_nat x"] of_nat_small [of x]
  by (simp add: unat_of_nat uint_nat)

lemma decode_in_1024: "in_grid 1024 (DecodeVoxelUniqueID v)"
  using sint_small(2,3) [OF and_0x3ff_less]
  by (simp add: in_grid_def DecodeVoxelUniqueID_def mk_ivec4_def)

lemma in_grid_mono: "in_grid m d \<Longrightarrow> m \<le> n \<Longrightarrow> in_grid n d"
  by (auto simp: in_grid_def)

lemma active_in_grid:
  assumes "v \<in> set (activeVoxels (scan_result E wx wy wz n))"
  shows "in_grid n (DecodeVoxelUniqueID v)"
proof (cases "n \<le> 1024")
  case False
  then show ?thesis using in_grid_mono [OF decode_in_1024, of n v] by simp
next
  case True
  from assms scan_result_inv [of E wx wy wz n] obtain x y z where
    xyz: "x < n" "y < n" "z < n"
    and v: "v = EncodeVoxelUniqueID (mk_ivec4 (of_nat x) (of_nat y) (of_nat z) 0)"
    unfolding scan_inv_def by blast
  have small: "x < 1024" "y < 1024" "z < 1024" using xyz True by simp_all
  have "DecodeVoxelUniqueID v = mk_ivec4 (of_nat x) (of_nat y) (of_nat z) 0"
    unfolding v using small by (intro decode_encode_voxel of_nat_small)
  then show ?thesis
    using xyz small by (simp add: in_grid_def mk_ivec4_def sint_of_nat_small)
qed

lemma place_loop_dom:
  "dom (vertexIndices (fold (place_voxel E edges) voxels st)) \<subseteq> dom (vertexIndices st) \<union> set voxels"
proof (induction voxels arbitrary: st)
  case Nil
  show ?case by simp
next
  case (Cons v voxels)
  have "dom (vertexIndices (place_voxel E edges v st)) \<subseteq> insert v (dom (vertexIndices st))"
    by (auto simp: place_voxel_fields split: if_splits)
  with Cons [of "place_voxel E edges v st"] show ?case by auto
qed

lemma GenerateVertexData_dom:
  "dom (vertexIndices (GenerateVertexData E voxels edges vi0 buf0 cd0)) \<subseteq> dom vi0 \<union> set voxels"
  unfolding GenerateVertexData_def
  by (rule subset_trans [OF place_loop_dom]) simp

lemma plane_scan_1:
  "scan_result plane_env 0 0 0 1 = \<lparr>activeVoxels = [0], activeEdges = unit_edges\<rparr>"
  unfolding unit_edges_def by code_simp

lemma plane_scan_1_fields:
  "activeVoxels (scan_result plane_env 0 0 0 1) = [0]"
  "activeEdges (scan_result plane_env 0 0 0 1) = unit_edges"
  unfolding plane_scan_1 by simp_all

lemma plane_iter:
  "visits_each_once (iter_voxels plane_env) vs" "visits_each_once (iter_edges plane_env) es"
  by (simp_all add: visits_each_once_def plane_env_def)

text \<open>
  Claim C6.  Every element of the active voxel set after \<open>FindActiveVoxels\<close>, and every
  key of the index map after \<open>GenerateVertexData\<close>, decodes to coordinates in
  \<open>[0, gridSize)\<close>; and a neighbour \<open>idxPos - edgeNodes[i]\<close> with a negative coordinate
  leaves the set as it was.
\<close>

theorem C6_active_voxels_in_grid:
  assumes "visits_each_once (iter_voxels E) (activeVoxels (scan_result E wx wy wz n))"
  shows "(\<forall>v\<in>set (activeVoxels (scan_result E wx wy wz n)). in_grid n (DecodeVoxelUniqueID v)) \<and>
         (\<forall>v\<in>dom (vertexIndices (place_result E wx wy wz n cd)). in_grid n (DecodeVoxelUniqueID v)) \<and>
         (\<forall>idxPos axis i vs.
            sint (ix (ivec4_sub idxPos (EDGE_NODE_OFFSETS ! axis ! i))) < 0 \<or>
            sint (iy (ivec4_sub idxPos (EDGE_NODE_OFFSETS ! axis ! i))) < 0 \<or>
            sint (iz (ivec4_sub idxPos (EDGE_NODE_OFFSETS ! axis ! i))) < 0
            \<longrightarrow> add_node idxPos axis i vs = vs)"
proof (intro conjI ballI allI impI)
  fix v assume "v \<in> set (activeVoxels (scan_result E wx wy wz n))"
  then show "in_grid n (DecodeVoxelUniqueID v)" by (rule active_in_grid)
next
  have sub: "set (iter_voxels E (activeVoxels (scan_result E wx wy wz n)))
      = set (activeVoxels (scan_result E wx wy wz n))"
    using assms unfolding visits_each_once_def by (rule mset_eq_setD)
  fix v assume "v \<in> dom (vertexIndices (place_result E wx wy wz n cd))"
  then have "v \<in> set (iter_voxels E (activeVoxels (scan_result E wx wy wz n)))"
    using GenerateVertexData_dom [of E "iter_voxels E (activeVoxels (scan_result E wx wy wz n))"
        "activeEdges (scan_result E wx wy wz n)" Map.empty]
    unfolding place_result_def Let_def by auto
  with sub show "in_grid n (DecodeVoxelUniqueID v)" by (auto intro: active_in_grid)
next
  fix idxPos axis i vs
  assume "sint (ix (ivec4_sub idxPos (EDGE_NODE_OFFSETS ! axis ! i))) < 0 \<or>
          sint (iy (ivec4_sub idxPos (EDGE_NODE_OFFSETS ! axis ! i))) < 0 \<or>
          sint (iz (ivec4_sub idxPos (EDGE_NODE_OFFSETS ! axis ! i))) < 0"
  then show "add_node idxPos axis i vs = vs"
    by (simp add: add_node_def Let_def)
qed

theorem C6_active_voxels_in_grid_witness:
  "0 \<in> set (activeVoxels (scan_result plane_env 0 0 0 1)) \<and>
   in_grid 1 (DecodeVoxelUniqueID 0) \<and>
   sint (iz (ivec4_sub (mk_ivec4 0 0 0 0) (EDGE_NODE_OFFSETS ! 0 ! 1))) < 0 \<and>
   add_node (mk_ivec4 0 0 0 0) 0 1 [0] = [0]"
proof -
  note T = C6_active_voxels_in_grid [OF plane_iter(1), of 0 0 0 1 "[]"]
  have m: "0 \<in> set (activeVoxels (scan_result plane_env 0 0 0 1))"
    unfolding plane_scan_1_fields by simp
  have neg: "sint (iz (ivec4_sub (mk_ivec4 0 0 0 0) (EDGE_NODE_OFFSETS ! 0 ! 1))) < 0"
    by (simp add: ivec4_sub_def mk_ivec4_def EDGE_NODE_OFFSETS_def)
  from T m have "in_grid 1 (DecodeVoxelUniqueID 0)" by blast
  moreover from T neg have "add_node (mk_ivec4 0 0 0 0) 0 1 [0] = [0]" by blast
  ultimately show ?thesis using m neg by blast
qed

section \<open>Triangulator\<close>

lemma upt_0_2: "[0..<2] = [0, 1::nat]"
  by code_simp

lemma upt_0_3: "[0..<3] = [0, 1, 2::nat]"
  by code_simp

lemma upt_0_4: "[0..<4] = [0, 1, 2, 3::nat]"
  by code_simp

lemma upt_0_12: "[0..<12] = [0, 1, 2, 3, 4, 5, 6, 7, 8, 9, 10, 11::nat]"
  by code_simp

lemma sharing_voxels_list:
  "sharing_voxels edge =
     [edge_nodeID edge - ENCODED_EDGE_NODE_OFFSETS ! (edge_axis edge * 4 + 0),
      edge_nodeID edge - ENCODED_EDGE_NODE_OFFSETS ! (edge_axis edge * 4 + 1),
      edge_nodeID edge - ENCODED_EDGE_NODE_OFFSETS ! (edge_axis edge * 4 + 2),
      edge_nodeID edge - ENCODED_EDGE_NODE_OFFSETS ! (edge_axis edge * 4 + 3)]"
  by (simp only: sharing_voxels_def upt_0_4 list.map)

lemma edge_voxelIDs_ok:
  assumes "edge_axis edge < 3"
  shows "edge_voxelIDs edge = Inr (sharing_voxels edge)"
proof -
  have "length ENCODED_EDGE_NODE_OFFSETS = 12" by (simp add: ENCODED_EDGE_NODE_OFFSETS_def)
  then have "table_read ENCODED_EDGE_NODE_OFFSETS (edge_axis edge * 4 + j)
           = Inr (ENCODED_EDGE_NODE_OFFSETS ! (edge_axis edge * 4 + j))" if "j < 4" for j
    using assms that by (simp add: table_read_def)
  from this [of 0] this [of 1] this [of 2] this [of 3] show ?thesis
    by (simp add: edge_voxelIDs_def Let_def sharing_voxels_list)
qed

lemma edge_voxelIDs_length: "edge_voxelIDs edge = Inr ids \<Longrightarrow> length ids = 4"
  by (auto simp: edge_voxelIDs_def Let_def split: sum.splits)

lemma found_four:
  "find_edgeVoxels vi [a, b, c, d] =
     (case vi a of None \<Rightarrow> [] | Some x \<Rightarrow> [x]) @ (case vi b of None \<Rightarrow> [] | Some x \<Rightarrow> [x]) @
     (case vi c of None \<Rightarrow> [] | Some x \<Rightarrow> [x]) @ (case vi d of None \<Rightarrow> [] | Some x \<Rightarrow> [x])"
  by (simp add: find_edgeVoxels_def split: option.splits)

lemma edge_triangles_ok:
  assumes "edge_axis (fst e) < 3"
  shows "edge_triangles vi e = Inr (candidate_triangles vi e)"
  unfolding edge_triangles_def edge_voxelIDs_ok [OF assms] candidate_triangles_def
  by (simp add: sharing_voxels_list found_four Let_def quad_triangles_def split: option.splits)

lemma claimed_length: "length (candidate_triangles vi e) = 0 \<or> length (candidate_triangles vi e) = 2"
  by (simp add: candidate_triangles_def Let_def)

lemma triangles_loop_ok:
  assumes "\<forall>e\<in>set es. edge_axis (fst e) < 3"
  shows "triangles_loop vi es buf =
     Inr (buf\<lparr>triangles := triangles buf @ concat (map (candidate_triangles vi) es),
              numTriangles := numTriangles buf + length (concat (map (candidate_triangles vi) es))\<rparr>)"
  using assms
proof (induction es arbitrary: buf)
  case Nil
  show ?case by simp
next
  case (Cons e es)
  have e: "edge_triangles vi e = Inr (candidate_triangles vi e)"
    using Cons.prems by (intro edge_triangles_ok) simp
  have IH: "triangles_loop vi es b =
     Inr (b\<lparr>triangles := triangles b @ concat (map (candidate_triangles vi) es),
              numTriangles := numTriangles b + length (concat (map (candidate_triangles vi) es))\<rparr>)" for b
    using Cons.prems by (intro Cons.IH) simp
  show ?case
  proof (cases "candidate_triangles vi e")
    case Nil
    then show ?thesis by (simp add: e IH)
  next
    case (Cons t ts)
    then have "length (candidate_triangles vi e) = 2"
      using claimed_length [of vi e] by simp
    then show ?thesis using Cons by (simp add: e IH)
  qed
qed

lemma edge_triangles_sound:
  assumes "edge_triangles vi e = Inr ts"
  shows "(length ts = 0 \<or> length ts = 2) \<and>
         (\<forall>t\<in>set ts. fst t \<in> ran vi \<and> fst (snd t) \<in> ran vi \<and> snd (snd t) \<in> ran vi)"
proof -
  from assms obtain ids where ids: "edge_voxelIDs (fst e) = Inr ids"
    by (auto simp: edge_triangles_def split: sum.splits)
  then have "length ids = 4" by (rule edge_voxelIDs_length)
  then obtain a b c d where abcd: "ids = [a, b, c, d]"
    by (auto simp: length_Suc_conv numeral_eq_Suc)
  show ?thesis
    using assms
    by (auto simp: edge_triangles_def ids abcd found_four Let_def quad_triangles_def ran_def
          split: option.splits if_splits)
qed

lemma triangles_loop_sound:
  assumes "triangles_loop vi es buf = Inr buf'"
  shows "vertices buf' = vertices buf \<and> numVertices buf' = numVertices buf \<and>
         (\<exists>ts. triangles buf' = triangles buf @ ts \<and>
               numTriangles buf' = numTriangles buf + length ts \<and> even (length ts) \<and>
               (\<forall>t\<in>set ts. fst t \<in> ran vi \<and> fst (snd t) \<in> ran vi \<and> snd (snd t) \<in> ran vi))"
  using assms
proof (induction es arbitrary: buf)
  case Nil
  then show ?case by simp
next
  case (Cons e es)
  from Cons.prems obtain ts where ts: "edge_triangles vi e = Inr ts"
    by (cases "edge_triangles vi e") auto
  note S = edge_triangles_sound [OF ts]
  show ?case
  proof (cases ts)
    case Nil
    with Cons.prems ts have "triangles_loop vi es buf = Inr buf'" by simp
    from Cons.IH [OF this] show ?thesis .
  next
    case (Cons t ts')
    with S have len: "length ts = 2" by simp
    let ?b = "buf\<lparr>triangles := triangles buf @ ts, numTriangles := numTriangles buf + 2\<rparr>"
    from Cons.prems ts Cons have "triangles_loop vi es ?b = Inr buf'" by simp
    from Cons.IH [OF this] obtain us where us:
      "vertices buf' = vertices buf" "numVertices buf' = numVertices buf"
      "triangles buf' = (triangles buf @ ts) @ us"
      "numTriangles buf' = numTriangles buf + 2 + length us" "even (length us)"
      "\<forall>t\<in>set us. fst t \<in> ran vi \<and> fst (snd t) \<in> ran vi \<and> snd (snd t) \<in> ran vi"
      by auto
    show ?thesis
      using us S len
      by (intro conjI exI [of _ "ts @ us"]) auto
  qed
qed

lemma ran_upd_subset: "ran (m(k \<mapsto> v)) \<subseteq> insert v (ran m)"
  by (auto simp: ran_def split: if_splits)

lemma place_loop_ran:
  assumes "\<forall>i\<in>ran (vertexIndices st). i < idxCounter st"
  shows "\<forall>i\<in>ran (vertexIndices (fold (place_voxel E edges) voxels st)).
           i < idxCounter (fold (place_voxel E edges) voxels st)"
  using assms
proof (induction voxels arbitrary: st)
  case Nil
  then show ?case by simp
next
  case (Cons v voxels)
  have "\<forall>i\<in>ran (vertexIndices (place_voxel E edges v st)). i < idxCounter (place_voxel E edges v st)"
    using Cons.prems ran_upd_subset [of "vertexIndices st" v "idxCounter st"]
    by (auto simp: place_voxel_fields less_Suc_eq)
  from Cons.IH [OF this] show ?case by simp
qed

lemma place_result_ran:
  "\<forall>i\<in>ran (vertexIndices (place_result E wx wy wz n cd)).
     i < numVertices (buffer (place_result E wx wy wz n cd))"
proof -
  let ?vs = "iter_voxels E (activeVoxels (scan_result E wx wy wz n))"
  let ?es = "activeEdges (scan_result E wx wy wz n)"
  let ?st = "GenerateVertexData E ?vs ?es Map.empty
      \<lparr>vertices = [], numVertices = 0, triangles = [], numTriangles = 0\<rparr> cd"
  have "\<forall>i\<in>ran (vertexIndices ?st). i < idxCounter ?st"
    unfolding GenerateVertexData_def by (rule place_loop_ran) simp
  moreover have "idxCounter ?st = numVertices (buffer ?st)"
    using GenerateVertexData_fields(1,2) [of E ?vs ?es Map.empty _ cd] by simp
  ultimately show ?thesis by (simp add: place_result_def Let_def)
qed

lemma recorded_edge_facts:
  assumes "n \<le> 1024" "e \<in> set (activeEdges (scan_result E wx wy wz n))"
  shows "edge_axis (fst e) < 3"
    and "winding (snd e) = (0 \<le> Density E (edge_lower_endpoint wx wy wz n (fst e)))"
proof -
  from assms(2) scan_result_inv [of E wx wy wz n] obtain x y z a where
    b: "x < n" "y < n" "z < n" "a < 3" and r: "recorded_at E wx wy wz n x y z a e"
    unfolding scan_inv_def by blast
  have small: "(of_nat x :: 32 word) < 1024" "(of_nat y :: 32 word) < 1024"
    "(of_nat z :: 32 word) < 1024"
    using b assms(1) by (simp_all add: of_nat_small)
  have a4: "(of_nat a :: 32 word) < 4" and ua: "unat (of_nat a :: 32 word) = a"
    using b(4) by (simp_all add: word_less_nat_alt unat_of_nat)
  have key: "fst e = EncodeAxisUniqueID (of_nat a) (of_nat x) (of_nat y) (of_nat z)"
    using r by (simp add: recorded_at_def)
  show "edge_axis (fst e) < 3"
    unfolding key edge_key_decode(1) [OF small a4] ua by (rule b(4))
  have ux: "unat (of_nat x :: 32 word) = x" "unat (of_nat y :: 32 word) = y"
    "unat (of_nat z :: 32 word) = z"
    using b assms(1) by (simp_all add: unat_of_nat)
  have "edge_lower_endpoint wx wy wz n (fst e) = cell_point wx wy wz n x y z"
    unfolding key edge_lower_endpoint_def edge_key_decode(3) [OF small a4]
    by (simp add: mk_ivec4_def ux)
  moreover have "winding (snd e) = (0 \<le> Density E (cell_point wx wy wz n x y z))"
    using r by (simp add: recorded_at_def edge_info_def Let_def)
  ultimately show "winding (snd e) = (0 \<le> Density E (edge_lower_endpoint wx wy wz n (fst e)))"
    by simp
qed

text \<open>
  The grid of two cells per axis around the origin with \<open>corner_env\<close>: the scan finds six
  crossing edges and four active voxels, each voxel gets a vertex, and the edge from
  \<open>(0, 1, 1)\<close> along axis 0 is the only one with all four voxels around it.
\<close>

lemma winding_edge_info: "winding (edge_info E p q) = (0 \<le> Density E p)"
  by (simp add: edge_info_def Let_def)

lemma corner_iter:
  "iter_voxels corner_env = (\<lambda>xs. xs)" "iter_edges corner_env = (\<lambda>xs. xs)"
  by (simp_all add: corner_env_def)

lemma corner_visits:
  "visits_each_once (iter_voxels corner_env) vs" "visits_each_once (iter_edges corner_env) es"
  by (simp_all add: visits_each_once_def corner_env_def)

lemma corner_scan_2:
  "scan_result corner_env 0 0 0 2 =
     \<lparr>activeVoxels = [0x00100400, 0x00000400, 0x00100000, 0x00000000], activeEdges = corner_edges\<rparr>"
  by (simp add: scan_result_def FindActiveVoxels_def scan_cell_def scan_axis_def cell_point_def
        zeroCrossing_def Density_def vec3_of_def vec4_add_def AXIS_OFFSET_def mk_vec4_def
        corner_env_def corner_edges_def upt_0_2 upt_0_3 upt_0_4 add_node_def ivec4_sub_def
        mk_ivec4_def EDGE_NODE_OFFSETS_def EncodeVoxelUniqueID_def EncodeAxisUniqueID_def Let_def)

lemma corner_gather_lengths:
  "length (gather corner_edges 0x00100400) = 2"
  "length (gather corner_edges 0x00000400) = 4"
  "length (gather corner_edges 0x00100000) = 2"
  "length (gather corner_edges 0x00000000) = 4"
  by (simp_all add: gather_def gather_step_def corner_edges_def ENCODED_EDGE_OFFSETS_def upt_0_12)

lemma corner_place_2:
  "vertexIndices (place_result corner_env 0 0 0 2 [])
     = [0x00100400 \<mapsto> 0, 0x00000400 \<mapsto> 1, 0x00100000 \<mapsto> 2, 0x00000000 \<mapsto> 3]"
  "numVertices (buffer (place_result corner_env 0 0 0 2 [])) = 4"
proof -
  let ?vs = "[0x00100400, 0x00000400, 0x00100000, 0x00000000] :: uint32_t list"
  let ?b0 = "\<lparr>vertices = [], numVertices = 0, triangles = [], numTriangles = 0\<rparr>"
  have pr: "place_result corner_env 0 0 0 2 [] = GenerateVertexData corner_env ?vs corner_edges Map.empty ?b0 []"
    unfolding place_result_def Let_def corner_scan_2 corner_iter by simp
  have d: "distinct ?vs" by simp
  have pl: "placed corner_edges ?vs = ?vs"
    by (simp add: placed_def corner_gather_lengths)
  note F = GenerateVertexData_fields [where voxels = ?vs and E = corner_env and edges = corner_edges
      and ?vi0.0 = Map.empty and ?buf0.0 = ?b0 and ?cd0.0 = "[]"]
  show "vertexIndices (place_result corner_env 0 0 0 2 [])
     = [0x00100400 \<mapsto> 0, 0x00000400 \<mapsto> 1, 0x00100000 \<mapsto> 2, 0x00000000 \<mapsto> 3]"
    unfolding pr F(5) [OF d] pl by (simp add: upt_0_4 fun_eq_iff)
  show "numVertices (buffer (place_result corner_env 0 0 0 2 [])) = 4"
    unfolding pr using F(1,2) by (simp add: pl)
qed

lemma corner_windings: "\<forall>e\<in>set corner_edges. \<not> winding (snd e)"
  by (simp add: corner_edges_def winding_edge_info Density_def corner_env_def vec3_of_def mk_vec4_def)

lemma corner_mesh_2:
  "\<exists>buf. GenerateMesh corner_env 0 0 0 2 [] = Inr buf \<and>
      triangles buf = [(0, 3, 1), (0, 2, 3)] \<and> numVertices buf = 4"
proof -
  let ?vi = "vertexIndices (place_result corner_env 0 0 0 2 [])"
  have ax: "\<forall>e\<in>set corner_edges. edge_axis (fst e) < 3"
    by (simp add: corner_edges_def edge_axis_def)
  have cl: "concat (map (candidate_triangles ?vi) corner_edges) = [(0, 3, 1), (0, 2, 3)]"
    unfolding corner_place_2
    using corner_windings
    apply (simp add: corner_edges_def candidate_triangles_def sharing_voxels_list edge_axis_def
          edge_nodeID_def ENCODED_EDGE_NODE_OFFSETS_def Let_def)
    done
  have lp: "triangles_loop ?vi corner_edges b =
      Inr (b\<lparr>triangles := triangles b @ [(0, 3, 1), (0, 2, 3)], numTriangles := numTriangles b + 2\<rparr>)" for b
    unfolding triangles_loop_ok [OF ax] cl by simp
  show ?thesis
    unfolding GenerateMesh_def GenerateTriangles_def Let_def corner_scan_2 corner_iter scan_state.simps lp
    by (simp add: corner_place_2(2))
qed

text \<open>
  Claim C4.  Whenever \<open>GenerateMesh\<close> returns a buffer, its triangle count is even and
  equals the number of triangles written, and all three indices of every triangle are
  below \<open>numVertices\<close>.  It does return one for every grid size up to 1024 (beyond that
  an edge key can carry axis 3, and the table read is out of range).
\<close>

theorem C4_triangle_indices_valid:
  "(\<forall>buf. GenerateMesh E x y z n cd = Inr buf \<longrightarrow>
      even (numTriangles buf) \<and> numTriangles buf = length (triangles buf) \<and>
      (\<forall>t\<in>set (triangles buf). index_valid (numVertices buf) t)) \<and>
   (n \<le> 1024 \<and> visits_each_once (iter_edges E) (activeEdges (scan_result E x y z n))
    \<longrightarrow> (\<exists>buf. GenerateMesh E x y z n cd = Inr buf))"
proof (intro conjI allI impI)
  fix buf assume g: "GenerateMesh E x y z n cd = Inr buf"
  let ?pl = "place_result E x y z n cd"
  let ?b0 = "(buffer ?pl)\<lparr>numTriangles := 0, triangles := []\<rparr>"
  from g have "triangles_loop (vertexIndices ?pl)
      (iter_edges E (activeEdges (scan_result E x y z n))) ?b0 = Inr buf"
    by (simp add: GenerateMesh_def GenerateTriangles_def Let_def)
  from triangles_loop_sound [OF this] obtain ts where ts:
    "numVertices buf = numVertices (buffer ?pl)" "triangles buf = ts"
    "numTriangles buf = length ts" "even (length ts)"
    "\<forall>t\<in>set ts. fst t \<in> ran (vertexIndices ?pl) \<and> fst (snd t) \<in> ran (vertexIndices ?pl)
        \<and> snd (snd t) \<in> ran (vertexIndices ?pl)"
    by auto
  show "even (numTriangles buf)" using ts by simp
  show "numTriangles buf = length (triangles buf)" using ts by simp
  show "\<forall>t\<in>set (triangles buf). index_valid (numVertices buf) t"
    using ts place_result_ran [of E x y z n cd] by (auto simp: index_valid_def)
next
  assume a: "n \<le> 1024 \<and> visits_each_once (iter_edges E) (activeEdges (scan_result E x y z n))"
  then have "set (iter_edges E (activeEdges (scan_result E x y z n)))
      = set (activeEdges (scan_result E x y z n))"
    unfolding visits_each_once_def by (intro mset_eq_setD) simp
  with a have "\<forall>e\<in>set (iter_edges E (activeEdges (scan_result E x y z n))). edge_axis (fst e) < 3"
    using recorded_edge_facts(1) [of n _ E x y z] by blast
  from triangles_loop_ok [OF this] show "\<exists>buf. GenerateMesh E x y z n cd = Inr buf"
    by (simp add: GenerateMesh_def GenerateTriangles_def Let_def)
qed

theorem C4_triangle_indices_valid_witness:
  "\<exists>buf. GenerateMesh corner_env 0 0 0 2 [] = Inr buf \<and>
      vertexIndices (place_result corner_env 0 0 0 2 [])
        = [0x00100400 \<mapsto> 0, 0x00000400 \<mapsto> 1, 0x00100000 \<mapsto> 2, 0x00000000 \<mapsto> 3] \<and>
      numVertices buf = 4 \<and> triangles buf = [(0, 3, 1), (0, 2, 3)] \<and>
      even (numTriangles buf) \<and> numTriangles buf = 2 \<and>
      index_valid (numVertices buf) (0, 3, 1) \<and> index_valid (numVertices buf) (0, 2, 3)"
proof -
  note T = C4_triangle_indices_valid [of corner_env 0 0 0 2 "[]"]
  have pre: "(2::nat) \<le> 1024 \<and>
      visits_each_once (iter_edges corner_env) (activeEdges (scan_result corner_env 0 0 0 2))"
    by (simp add: corner_visits)
  from T [THEN conjunct2, THEN mp, OF pre]
  obtain buf where g: "GenerateMesh corner_env 0 0 0 2 [] = Inr buf" ..
  from corner_mesh_2 g have tr: "triangles buf = [(0, 3, 1), (0, 2, 3)]" "numVertices buf = 4"
    by auto
  note V = T [THEN conjunct1, THEN spec, THEN mp, OF g]
  have "even (numTriangles buf)" "numTriangles buf = 2"
    "index_valid (numVertices buf) (0, 3, 1)" "index_valid (numVertices buf) (0, 2, 3)"
    using V by (simp_all add: tr(1))
  with g tr corner_place_2(1) show ?thesis by (intro exI [of _ buf]) simp
qed

section \<open>Table lookups and 3D offsets\<close>

lemma or_fields_add:
  fixes a b c d :: "32 word"
  shows "take_bit 10 a OR push_bit 10 (take_bit 10 b) OR push_bit 20 (take_bit 10 c)
         OR push_bit 30 (take_bit 2 d)
       = take_bit 10 a + push_bit 10 (take_bit 10 b) + push_bit 20 (take_bit 10 c)
         + push_bit 30 (take_bit 2 d)"
proof -
  have 1: "take_bit 10 a + push_bit 10 (take_bit 10 b) = take_bit 10 a OR push_bit 10 (take_bit 10 b)"
    by (rule disjunctive_add_eq_or, rule bit_eqI) (auto simp: bit_simps)
  have 2: "(take_bit 10 a OR push_bit 10 (take_bit 10 b)) + push_bit 20 (take_bit 10 c)
      = (take_bit 10 a OR push_bit 10 (take_bit 10 b)) OR push_bit 20 (take_bit 10 c)"
    by (rule disjunctive_add_eq_or, rule bit_eqI) (auto simp: bit_simps)
  have 3: "(take_bit 10 a OR push_bit 10 (take_bit 10 b) OR push_bit 20 (take_bit 10 c))
        + push_bit 30 (take_bit 2 d)
      = (take_bit 10 a OR push_bit 10 (take_bit 10 b) OR push_bit 20 (take_bit 10 c))
        OR push_bit 30 (take_bit 2 d)"
    by (rule disjunctive_add_eq_or, rule bit_eqI) (auto simp: bit_simps)
  show ?thesis
    using 1 2 3 by (simp add: or.assoc)
qed

lemma edge_key_linear:
  fixes X Y Z A :: "32 word"
  assumes "X < 1024" "Y < 1024" "Z < 1024" "A < 4"
  shows "EncodeAxisUniqueID A X Y Z = X + 1024 * Y + 1048576 * Z + 1073741824 * A"
proof -
  have x: "take_bit 10 X = X" and y: "take_bit 10 Y = Y" and z: "take_bit 10 Z = Z"
    and a: "take_bit 2 A = A"
    using assms by (simp_all add: take_bit_10_small take_bit_2_small)
  show ?thesis
    using or_fields_add [of X Y Z A, unfolded x y z a]
    by (simp add: EncodeAxisUniqueID_def push_bit_eq_mult)
qed

lemma voxel_key_linear:
  fixes X Y Z :: "32 word"
  assumes "X < 1024" "Y < 1024" "Z < 1024"
  shows "EncodeVoxelUniqueID (mk_ivec4 X Y Z w) = X + 1024 * Y + 1048576 * Z"
proof -
  have "EncodeVoxelUniqueID (mk_ivec4 X Y Z w) = EncodeAxisUniqueID 0 X Y Z"
    by (simp add: EncodeVoxelUniqueID_def EncodeAxisUniqueID_def mk_ivec4_def)
  then show ?thesis using edge_key_linear [OF assms, of 0] by simp
qed

lemma axis_corner_cases:
  fixes a i :: nat
  assumes "a < 3" "i < 4"
  shows "(a = 0 \<or> a = 1 \<or> a = 2) \<and> (i = 0 \<or> i = 1 \<or> i = 2 \<or> i = 3)"
  using assms by auto

lemma node_offset_entry:
  assumes "a < 3" "i < 4"
  shows "ENCODED_EDGE_NODE_OFFSETS ! (4 * a + i)
       = ix (EDGE_NODE_OFFSETS ! a ! i) + 1024 * iy (EDGE_NODE_OFFSETS ! a ! i)
         + 1048576 * iz (EDGE_NODE_OFFSETS ! a ! i)"
  using axis_corner_cases [OF assms]
  by (auto simp: ENCODED_EDGE_NODE_OFFSETS_def EDGE_NODE_OFFSETS_def mk_ivec4_def)

lemma edge_offset_entry:
  assumes "a < 3" "i < 4"
  shows "ENCODED_EDGE_OFFSETS ! (4 * a + i)
       = ix (EDGE_NODE_OFFSETS ! a ! edge_offset_corner a i)
         + 1024 * iy (EDGE_NODE_OFFSETS ! a ! edge_offset_corner a i)
         + 1048576 * iz (EDGE_NODE_OFFSETS ! a ! edge_offset_corner a i)
         + 1073741824 * of_nat a"
  using axis_corner_cases [OF assms]
  by (auto simp: ENCODED_EDGE_OFFSETS_def EDGE_NODE_OFFSETS_def mk_ivec4_def edge_offset_corner_def)

lemma sub_le_small:
  fixes X ox :: "32 word"
  assumes "X < 1024" "ox \<le> X"
  shows "X - ox < 1024"
  using assms by (meson order_le_less_trans word_sub_le)

lemma table_subtract:
  fixes X Y Z :: "32 word"
  assumes "X < 1024" "Y < 1024" "Z < 1024" "a < 3" "i < 4"
    and "ix (EDGE_NODE_OFFSETS ! a ! i) \<le> X" "iy (EDGE_NODE_OFFSETS ! a ! i) \<le> Y"
        "iz (EDGE_NODE_OFFSETS ! a ! i) \<le> Z"
  shows "EncodeVoxelUniqueID (mk_ivec4 X Y Z 0) - ENCODED_EDGE_NODE_OFFSETS ! (4 * a + i)
       = EncodeVoxelUniqueID (ivec4_sub (mk_ivec4 X Y Z 0) (EDGE_NODE_OFFSETS ! a ! i))"
proof -
  let ?o = "EDGE_NODE_OFFSETS ! a ! i"
  have sub: "ivec4_sub (mk_ivec4 X Y Z 0) ?o = mk_ivec4 (X - ix ?o) (Y - iy ?o) (Z - iz ?o) (0 - iw ?o)"
    by (simp add: ivec4_sub_def mk_ivec4_def)
  have "EncodeVoxelUniqueID (mk_ivec4 (X - ix ?o) (Y - iy ?o) (Z - iz ?o) (0 - iw ?o))
      = (X - ix ?o) + 1024 * (Y - iy ?o) + 1048576 * (Z - iz ?o)"
    using assms by (intro voxel_key_linear sub_le_small)
  then show ?thesis
    unfolding sub voxel_key_linear [OF assms(1-3)] node_offset_entry [OF assms(4,5)]
    by (simp add: algebra_simps)
qed

lemma table_add:
  fixes X Y Z :: "32 word"
  assumes "X < 1024" "Y < 1024" "Z < 1024" "a < 3" "i < 4"
    and "X + ix (EDGE_NODE_OFFSETS ! a ! edge_offset_corner a i) < 1024"
        "Y + iy (EDGE_NODE_OFFSETS ! a ! edge_offset_corner a i) < 1024"
        "Z + iz (EDGE_NODE_OFFSETS ! a ! edge_offset_corner a i) < 1024"
  shows "EncodeVoxelUniqueID (mk_ivec4 X Y Z 0) + ENCODED_EDGE_OFFSETS ! (4 * a + i)
       = EncodeAxisUniqueID (of_nat a)
           (X + ix (EDGE_NODE_OFFSETS ! a ! edge_offset_corner a i))
           (Y + iy (EDGE_NODE_OFFSETS ! a ! edge_offset_corner a i))
           (Z + iz (EDGE_NODE_OFFSETS ! a ! edge_offset_corner a i))"
proof -
  have a4: "(of_nat a :: 32 word) < 4"
    using assms(4) by (simp add: word_less_nat_alt unat_of_nat)
  show ?thesis
    unfolding edge_key_linear [OF assms(6-8) a4] voxel_key_linear [OF assms(1-3)]
      edge_offset_entry [OF assms(4,5)]
    by (simp add: algebra_simps)
qed

lemma corner_involution:
  "i < 4 \<Longrightarrow> edge_offset_corner a (edge_offset_corner a i) = i"
  "i < 4 \<Longrightarrow> edge_offset_corner a i < 4"
  by (auto simp: edge_offset_corner_def)

lemma nonneg_sub_le:
  fixes X ox :: "32 word"
  assumes "X < 1024" "ox = 0 \<or> ox = 1" "\<not> sint (X - ox) < 0"
  shows "ox \<le> X"
proof (cases "ox = 0")
  case True then show ?thesis by simp
next
  case False
  then have ox: "ox = 1" using assms(2) by simp
  have "X \<noteq> 0" using assms(3) ox by auto
  then show ?thesis unfolding ox by (simp add: word_le_nat_alt unat_gt_0 Suc_leI)
qed

section \<open>The packed offset tables\<close>

text \<open>
  Claim C7, as stated, at axis 1 and corner 1: entry 5 of \<open>ENCODED_EDGE_OFFSETS\<close> is the
  key of the offset \<open>(0, 0, 1)\<close> on axis 1, whereas \<open>EDGE_NODE_OFFSETS[1][1]\<close> is
  \<open>(1, 0, 0)\<close>.
\<close>

theorem C7_axis1_counterexample:
  "ENCODED_EDGE_OFFSETS ! (4 * 1 + 1) \<noteq> encode_edge_offset 1 (EDGE_NODE_OFFSETS ! 1 ! 1)"
  by (simp add: ENCODED_EDGE_OFFSETS_def EDGE_NODE_OFFSETS_def encode_edge_offset_def
        EncodeAxisUniqueID_def mk_ivec4_def)

lemma tables_packed:
  "ENCODED_EDGE_NODE_OFFSETS = concat (map (map EncodeVoxelUniqueID) EDGE_NODE_OFFSETS)"
  "ENCODED_EDGE_OFFSETS =
     concat (map (\<lambda>a. map (\<lambda>i. encode_edge_offset a (EDGE_NODE_OFFSETS ! a ! edge_offset_corner a i))
                          [0..<4]) [0..<3])"
  "set (take 4 ENCODED_EDGE_OFFSETS) = encode_edge_offset 0 ` set (EDGE_NODE_OFFSETS ! 0)"
  "set (take 4 (drop 4 ENCODED_EDGE_OFFSETS)) = encode_edge_offset 1 ` set (EDGE_NODE_OFFSETS ! 1)"
  "set (take 4 (drop 8 ENCODED_EDGE_OFFSETS)) = encode_edge_offset 2 ` set (EDGE_NODE_OFFSETS ! 2)"
  by (simp_all add: ENCODED_EDGE_NODE_OFFSETS_def ENCODED_EDGE_OFFSETS_def EDGE_NODE_OFFSETS_def
        encode_edge_offset_def EncodeAxisUniqueID_def EncodeVoxelUniqueID_def mk_ivec4_def
        edge_offset_corner_def upt_0_3 upt_0_4 insert_commute)

text \<open>
  Claim C7, amended.  \<open>ENCODED_EDGE_NODE_OFFSETS\<close> is, entry by entry, the packed form of
  \<open>EDGE_NODE_OFFSETS\<close>.  \<open>ENCODED_EDGE_OFFSETS\<close> is the packed form of the same offsets
  with the axis tag, entry by entry on axes 0 and 2 and with corners 1 and 2 exchanged on
  axis 1; so on every axis the four table entries are the keys of the four offsets of
  that axis.  For a voxel with coordinates below 1024, subtracting entry \<open>4 * a + i\<close> of the
  first table from its ID gives the ID of the coordinates minus \<open>EDGE_NODE_OFFSETS[a][i]\<close>
  whenever the offset does not exceed the coordinates, and adding entry \<open>4 * a + i\<close> of the
  second table gives the edge key on axis \<open>a\<close> of the coordinates plus the offset that
  the entry encodes whenever the sum stays below 1024.
\<close>

theorem C7_tables:
  "ENCODED_EDGE_NODE_OFFSETS = concat (map (map EncodeVoxelUniqueID) EDGE_NODE_OFFSETS) \<and>
   ENCODED_EDGE_OFFSETS =
     concat (map (\<lambda>a. map (\<lambda>i. encode_edge_offset a (EDGE_NODE_OFFSETS ! a ! edge_offset_corner a i))
                          [0..<4]) [0..<3]) \<and>
   set (take 4 ENCODED_EDGE_OFFSETS) = encode_edge_offset 0 ` set (EDGE_NODE_OFFSETS ! 0) \<and>
   set (take 4 (drop 4 ENCODED_EDGE_OFFSETS)) = encode_edge_offset 1 ` set (EDGE_NODE_OFFSETS ! 1) \<and>
   set (take 4 (drop 8 ENCODED_EDGE_OFFSETS)) = encode_edge_offset 2 ` set (EDGE_NODE_OFFSETS ! 2) \<and>
   (\<forall>X Y Z a i.
      X < 1024 \<and> Y < 1024 \<and> Z < 1024 \<and> a < 3 \<and> i < 4 \<and>
      ix (EDGE_NODE_OFFSETS ! a ! i) \<le> X \<and> iy (EDGE_NODE_OFFSETS ! a ! i) \<le> Y \<and>
      iz (EDGE_NODE_OFFSETS ! a ! i) \<le> Z \<longrightarrow>
      EncodeVoxelUniqueID (mk_ivec4 X Y Z 0) - ENCODED_EDGE_NODE_OFFSETS ! (4 * a + i)
        = EncodeVoxelUniqueID (ivec4_sub (mk_ivec4 X Y Z 0) (EDGE_NODE_OFFSETS ! a ! i))) \<and>
   (\<forall>X Y Z a i.
      X < 1024 \<and> Y < 1024 \<and> Z < 1024 \<and> a < 3 \<and> i < 4 \<and>
      X + ix (EDGE_NODE_OFFSETS ! a ! edge_offset_corner a i) < 1024 \<and>
      Y + iy (EDGE_NODE_OFFSETS ! a ! edge_offset_corner a i) < 1024 \<and>
      Z + iz (EDGE_NODE_OFFSETS ! a ! edge_offset_corner a i) < 1024 \<longrightarrow>
      EncodeVoxelUniqueID (mk_ivec4 X Y Z 0) + ENCODED_EDGE_OFFSETS ! (4 * a + i)
        = EncodeAxisUniqueID (of_nat a)
            (X + ix (EDGE_NODE_OFFSETS ! a ! edge_offset_corner a i))
            (Y + iy (EDGE_NODE_OFFSETS ! a ! edge_offset_corner a i))
            (Z + iz (EDGE_NODE_OFFSETS ! a ! edge_offset_corner a i)))"
proof (intro conjI allI impI)
  fix X Y Z :: "32 word" and a i :: nat
  assume "X < 1024 \<and> Y < 1024 \<and> Z < 1024 \<and> a < 3 \<and> i < 4 \<and>
      ix (EDGE_NODE_OFFSETS ! a ! i) \<le> X \<and> iy (EDGE_NODE_OFFSETS ! a ! i) \<le> Y \<and>
      iz (EDGE_NODE_OFFSETS ! a ! i) \<le> Z"
  then show "EncodeVoxelUniqueID (mk_ivec4 X Y Z 0) - ENCODED_EDGE_NODE_OFFSETS ! (4 * a + i)
        = EncodeVoxelUniqueID (ivec4_sub (mk_ivec4 X Y Z 0) (EDGE_NODE_OFFSETS ! a ! i))"
    by (intro table_subtract) simp_all
next
  fix X Y Z :: "32 word" and a i :: nat
  assume "X < 1024 \<and> Y < 1024 \<and> Z < 1024 \<and> a < 3 \<and> i < 4 \<and>
      X + ix (EDGE_NODE_OFFSETS ! a ! edge_offset_corner a i) < 1024 \<and>
      Y + iy (EDGE_NODE_OFFSETS ! a ! edge_offset_corner a i) < 1024 \<and>
      Z + iz (EDGE_NODE_OFFSETS ! a ! edge_offset_corner a i) < 1024"
  then show "EncodeVoxelUniqueID (mk_ivec4 X Y Z 0) + ENCODED_EDGE_OFFSETS ! (4 * a + i)
        = EncodeAxisUniqueID (of_nat a)
            (X + ix (EDGE_NODE_OFFSETS ! a ! edge_offset_corner a i))
            (Y + iy (EDGE_NODE_OFFSETS ! a ! edge_offset_corner a i))
            (Z + iz (EDGE_NODE_OFFSETS ! a ! edge_offset_corner a i))"
    by (intro table_add) simp_all
qed (rule tables_packed)+

theorem C7_tables_witness:
  "EncodeVoxelUniqueID (mk_ivec4 5 1 3 0) - ENCODED_EDGE_NODE_OFFSETS ! (4 * 0 + 2)
     = EncodeVoxelUniqueID (ivec4_sub (mk_ivec4 5 1 3 0) (EDGE_NODE_OFFSETS ! 0 ! 2)) \<and>
   EncodeVoxelUniqueID (mk_ivec4 5 1 3 0) + ENCODED_EDGE_OFFSETS ! (4 * 1 + 1)
     = EncodeAxisUniqueID (of_nat 1)
         (5 + ix (EDGE_NODE_OFFSETS ! 1 ! edge_offset_corner 1 1))
         (1 + iy (EDGE_NODE_OFFSETS ! 1 ! edge_offset_corner 1 1))
         (3 + iz (EDGE_NODE_OFFSETS ! 1 ! edge_offset_corner 1 1)) \<and>
   EncodeVoxelUniqueID (mk_ivec4 5 1 3 0) + ENCODED_EDGE_OFFSETS ! (4 * 1 + 1)
     = EncodeAxisUniqueID 1 5 1 4"
proof -
  have h1: "(5 :: 32 word) < 1024 \<and> (1 :: 32 word) < 1024 \<and> (3 :: 32 word) < 1024 \<and>
      (0 :: nat) < 3 \<and> (2 :: nat) < 4 \<and>
      ix (EDGE_NODE_OFFSETS ! 0 ! 2) \<le> 5 \<and> iy (EDGE_NODE_OFFSETS ! 0 ! 2) \<le> 1 \<and>
      iz (EDGE_NODE_OFFSETS ! 0 ! 2) \<le> 3"
    by (simp add: EDGE_NODE_OFFSETS_def mk_ivec4_def)
  have o: "EDGE_NODE_OFFSETS ! 1 ! edge_offset_corner 1 1 = mk_ivec4 0 0 1 0"
    by (simp add: EDGE_NODE_OFFSETS_def edge_offset_corner_def)
  have h2: "(5 :: 32 word) < 1024 \<and> (1 :: 32 word) < 1024 \<and> (3 :: 32 word) < 1024 \<and>
      (1 :: nat) < 3 \<and> (1 :: nat) < 4 \<and>
      5 + ix (EDGE_NODE_OFFSETS ! 1 ! edge_offset_corner 1 1) < 1024 \<and>
      1 + iy (EDGE_NODE_OFFSETS ! 1 ! edge_offset_corner 1 1) < 1024 \<and>
      3 + iz (EDGE_NODE_OFFSETS ! 1 ! edge_offset_corner 1 1) < 1024"
    unfolding o by (simp add: mk_ivec4_def)
  note T5 = C7_tables [THEN conjunct2, THEN conjunct2, THEN conjunct2, THEN conjunct2,
      THEN conjunct2]
  note a = T5 [THEN conjunct1, THEN spec, THEN spec, THEN spec, THEN spec, THEN spec, THEN mp, OF h1]
  note b = T5 [THEN conjunct2, THEN spec, THEN spec, THEN spec, THEN spec, THEN spec, THEN mp, OF h2]
  from b have c: "EncodeVoxelUniqueID (mk_ivec4 5 1 3 0) + ENCODED_EDGE_OFFSETS ! (4 * 1 + 1)
     = EncodeAxisUniqueID 1 5 1 4"
    unfolding o by (simp add: mk_ivec4_def)
  from a b c show ?thesis by (intro conjI)
qed

text \<open>
  Where the offset exceeds a coordinate the subtraction borrows from the next field: the
  table lookup and the 3D computation then give different IDs.
\<close>

lemma table_subtract_borrow_example:
  "EncodeVoxelUniqueID (mk_ivec4 5 0 3 0) - ENCODED_EDGE_NODE_OFFSETS ! (4 * 0 + 2)
     = EncodeVoxelUniqueID (mk_ivec4 5 1023 2 0)"
  "EncodeVoxelUniqueID (ivec4_sub (mk_ivec4 5 0 3 0) (EDGE_NODE_OFFSETS ! 0 ! 2)) = 0xFFFFFC05"
  by code_simp+

section \<open>Every active voxel has a recorded edge\<close>

lemma inserted_voxel_has_edge:
  assumes "x < 1024" "y < 1024" "z < 1024" "a < 3" "i < 4"
    and "\<not> sint (ix (ivec4_sub (mk_ivec4 (of_nat x) (of_nat y) (of_nat z) 0) (EDGE_NODE_OFFSETS ! a ! i))) < 0"
    and "\<not> sint (iy (ivec4_sub (mk_ivec4 (of_nat x) (of_nat y) (of_nat z) 0) (EDGE_NODE_OFFSETS ! a ! i))) < 0"
    and "\<not> sint (iz (ivec4_sub (mk_ivec4 (of_nat x) (of_nat y) (of_nat z) 0) (EDGE_NODE_OFFSETS ! a ! i))) < 0"
  shows "\<exists>j<12. EncodeVoxelUniqueID (ivec4_sub (mk_ivec4 (of_nat x) (of_nat y) (of_nat z) 0)
                     (EDGE_NODE_OFFSETS ! a ! i)) + ENCODED_EDGE_OFFSETS ! j
               = EncodeAxisUniqueID (of_nat a) (of_nat x) (of_nat y) (of_nat z)"
proof -
  let ?X = "of_nat x :: 32 word" and ?Y = "of_nat y :: 32 word" and ?Z = "of_nat z :: 32 word"
  let ?o = "EDGE_NODE_OFFSETS ! a ! i"
  let ?c = "edge_offset_corner a i"
  have small: "?X < 1024" "?Y < 1024" "?Z < 1024"
    using assms(1-3) by (simp_all add: of_nat_small)
  note sh = offsets_shape [OF assms(4,5)]
  have neg: "\<not> sint (?X - ix ?o) < 0" "\<not> sint (?Y - iy ?o) < 0" "\<not> sint (?Z - iz ?o) < 0"
    using assms(6-8) by (simp_all add: ivec4_sub_def mk_ivec4_def)
  have le: "ix ?o \<le> ?X" "iy ?o \<le> ?Y" "iz ?o \<le> ?Z"
    using nonneg_sub_le [OF small(1) sh(2) neg(1)] nonneg_sub_le [OF small(2) sh(3) neg(2)]
      nonneg_sub_le [OF small(3) sh(4) neg(3)] by simp_all
  have smalld: "?X - ix ?o < 1024" "?Y - iy ?o < 1024" "?Z - iz ?o < 1024"
    using small le by (simp_all add: sub_le_small)
  have c4: "?c < 4" and cinv: "edge_offset_corner a ?c = i"
    using assms(5) by (simp_all add: corner_involution)
  have enc: "EncodeVoxelUniqueID (ivec4_sub (mk_ivec4 ?X ?Y ?Z 0) ?o)
      = EncodeVoxelUniqueID (mk_ivec4 (?X - ix ?o) (?Y - iy ?o) (?Z - iz ?o) 0)"
    by (simp add: EncodeVoxelUniqueID_def ivec4_sub_def mk_ivec4_def)
  have "EncodeVoxelUniqueID (mk_ivec4 (?X - ix ?o) (?Y - iy ?o) (?Z - iz ?o) 0)
          + ENCODED_EDGE_OFFSETS ! (4 * a + ?c)
      = EncodeAxisUniqueID (of_nat a)
          ((?X - ix ?o) + ix (EDGE_NODE_OFFSETS ! a ! edge_offset_corner a ?c))
          ((?Y - iy ?o) + iy (EDGE_NODE_OFFSETS ! a ! edge_offset_corner a ?c))
          ((?Z - iz ?o) + iz (EDGE_NODE_OFFSETS ! a ! edge_offset_corner a ?c))"
    by (rule table_add [OF smalld assms(4) c4]) (simp_all add: cinv small)
  then have "EncodeVoxelUniqueID (ivec4_sub (mk_ivec4 ?X ?Y ?Z 0) ?o)
          + ENCODED_EDGE_OFFSETS ! (4 * a + ?c)
      = EncodeAxisUniqueID (of_nat a) ?X ?Y ?Z"
    by (simp add: cinv enc)
  moreover have "4 * a + ?c < 12" using assms(4) c4 by simp
  ultimately show ?thesis by blast
qed

lemma add_node_has_edge:
  assumes "x < 1024" "y < 1024" "z < 1024" "a < 3" "i < 4"
    and "EncodeAxisUniqueID (of_nat a) (of_nat x) (of_nat y) (of_nat z) \<in> K"
    and "\<forall>v\<in>set vs. \<exists>j<12. v + ENCODED_EDGE_OFFSETS ! j \<in> K"
  shows "\<forall>v\<in>set (add_node (mk_ivec4 (of_nat x) (of_nat y) (of_nat z) 0) a i vs).
           \<exists>j<12. v + ENCODED_EDGE_OFFSETS ! j \<in> K"
proof (cases "sint (ix (ivec4_sub (mk_ivec4 (of_nat x) (of_nat y) (of_nat z) 0) (EDGE_NODE_OFFSETS ! a ! i))) < 0
            \<or> sint (iy (ivec4_sub (mk_ivec4 (of_nat x) (of_nat y) (of_nat z) 0) (EDGE_NODE_OFFSETS ! a ! i))) < 0
            \<or> sint (iz (ivec4_sub (mk_ivec4 (of_nat x) (of_nat y) (of_nat z) 0) (EDGE_NODE_OFFSETS ! a ! i))) < 0")
  case True
  then have "add_node (mk_ivec4 (of_nat x) (of_nat y) (of_nat z) 0) a i vs = vs"
    by (simp add: add_node_def Let_def)
  with assms(7) show ?thesis by simp
next
  case False
  then have eq: "add_node (mk_ivec4 (of_nat x) (of_nat y) (of_nat z) 0) a i vs
      = List.insert (EncodeVoxelUniqueID (ivec4_sub (mk_ivec4 (of_nat x) (of_nat y) (of_nat z) 0)
           (EDGE_NODE_OFFSETS ! a ! i))) vs"
    by (simp add: add_node_def Let_def)
  from False inserted_voxel_has_edge [OF assms(1-5)] assms(6)
  have "\<exists>j<12. EncodeVoxelUniqueID (ivec4_sub (mk_ivec4 (of_nat x) (of_nat y) (of_nat z) 0)
           (EDGE_NODE_OFFSETS ! a ! i)) + ENCODED_EDGE_OFFSETS ! j \<in> K"
    by metis
  with assms(7) show ?thesis unfolding eq by auto
qed

lemma scan_axis_has_edges:
  assumes "x < 1024" "y < 1024" "z < 1024" "a < 3" "voxels_have_edges st"
  shows "voxels_have_edges (scan_axis E p x y z a st)"
proof (cases "zeroCrossing (Density E p) (Density E (vec4_add p (AXIS_OFFSET ! a)))")
  case False
  then show ?thesis using assms(5) by (simp add: scan_axis_def Let_def)
next
  case True
  let ?code = "EncodeAxisUniqueID (of_nat a) (of_nat x) (of_nat y) (of_nat z)"
  let ?info = "edge_info E p (vec4_add p (AXIS_OFFSET ! a))"
  let ?K = "fst ` set (AList.update ?code ?info (activeEdges st))"
  let ?vs = "fold (add_node (mk_ivec4 (of_nat x) (of_nat y) (of_nat z) 0) a) [0..<4] (activeVoxels st)"
  have eq: "scan_axis E p x y z a st =
      \<lparr>activeVoxels = ?vs, activeEdges = AList.update ?code ?info (activeEdges st)\<rparr>"
    using True by (simp add: scan_axis_def Let_def)
  have K: "?K = insert ?code (fst ` set (activeEdges st))"
    by (simp add: dom_update)
  have "\<forall>v\<in>set ?vs. \<exists>j<12. v + ENCODED_EDGE_OFFSETS ! j \<in> ?K"
  proof (rule fold_invariant [where P = "\<lambda>vs. \<forall>v\<in>set vs. \<exists>j<12. v + ENCODED_EDGE_OFFSETS ! j \<in> ?K"])
    show "\<forall>v\<in>set (activeVoxels st). \<exists>j<12. v + ENCODED_EDGE_OFFSETS ! j \<in> ?K"
      using assms(5) unfolding K voxels_have_edges_def by blast
  next
    fix i vs
    assume "i \<in> set [0..<4]" and "\<forall>v\<in>set vs. \<exists>j<12. v + ENCODED_EDGE_OFFSETS ! j \<in> ?K"
    then show "\<forall>v\<in>set (add_node (mk_ivec4 (of_nat x) (of_nat y) (of_nat z) 0) a i vs).
        \<exists>j<12. v + ENCODED_EDGE_OFFSETS ! j \<in> ?K"
      by (intro add_node_has_edge assms(1-4)) (simp_all add: K)
  qed
  then show ?thesis unfolding eq voxels_have_edges_def by simp
qed

lemma FindActiveVoxels_has_edges:
  assumes "n \<le> 1024" "voxels_have_edges st"
  shows "voxels_have_edges (FindActiveVoxels E wx wy wz n st)"
  unfolding FindActiveVoxels_def
proof (rule fold_invariant [where P = voxels_have_edges])
  show "voxels_have_edges st" by (rule assms)
next
  fix x s assume x: "x \<in> set [0..<n]" and s: "voxels_have_edges s"
  show "voxels_have_edges
          (fold (\<lambda>y. fold (\<lambda>z. scan_cell E wx wy wz n x y z) [0..<n]) [0..<n] s)"
  proof (rule fold_invariant [where P = voxels_have_edges])
    show "voxels_have_edges s" by (rule s)
  next
    fix y s' assume y: "y \<in> set [0..<n]" and s': "voxels_have_edges s'"
    show "voxels_have_edges (fold (\<lambda>z. scan_cell E wx wy wz n x y z) [0..<n] s')"
    proof (rule fold_invariant [where P = voxels_have_edges])
      show "voxels_have_edges s'" by (rule s')
    next
      fix z s'' assume z: "z \<in> set [0..<n]" and s'': "voxels_have_edges s''"
      show "voxels_have_edges (scan_cell E wx wy wz n x y z s'')"
        unfolding scan_cell_def Let_def
      proof (rule fold_invariant [where P = voxels_have_edges])
        show "voxels_have_edges s''" by (rule s'')
      next
        fix a t assume "a \<in> set [0..<3]" "voxels_have_edges t"
        then show "voxels_have_edges (scan_axis E (cell_point wx wy wz n x y z) x y z a t)"
          using x y z assms(1) by (intro scan_axis_has_edges) simp_all
      qed
    qed
  qed
qed

lemma active_voxel_has_crossing:
  assumes "n \<le> 1024" "v \<in> set (activeVoxels (scan_result E wx wy wz n))"
  shows "1 \<le> recorded_crossings (activeEdges (scan_result E wx wy wz n)) v"
proof -
  let ?es = "activeEdges (scan_result E wx wy wz n)"
  have "voxels_have_edges (scan_result E wx wy wz n)"
    unfolding scan_result_def
    by (rule FindActiveVoxels_has_edges [OF assms(1)]) (simp add: voxels_have_edges_def)
  with assms(2) obtain j where j: "j < 12" "v + ENCODED_EDGE_OFFSETS ! j \<in> fst ` set ?es"
    unfolding voxels_have_edges_def by blast
  then have "map_of ?es (v + ENCODED_EDGE_OFFSETS ! j) \<noteq> None"
    by (simp add: map_of_eq_None_iff)
  with j(1) have "j \<in> {i. i < 12 \<and> map_of ?es (v + ENCODED_EDGE_OFFSETS ! i) \<noteq> None}" by simp
  moreover have "finite {i. i < 12 \<and> map_of ?es (v + ENCODED_EDGE_OFFSETS ! i) \<noteq> None}" by simp
  ultimately have "0 < card {i. i < 12 \<and> map_of ?es (v + ENCODED_EDGE_OFFSETS ! i) \<noteq> None}"
    by (auto simp: card_gt_0_iff)
  then show ?thesis by (simp add: recorded_crossings_def)
qed

section \<open>VertexPlacer: when the solver is called\<close>

text \<open>In \<open>GenerateMesh\<close> the voxels handed to \<open>GenerateVertexData\<close> are pairwise different.\<close>

lemma pipeline_voxels_distinct:
  assumes "visits_each_once (iter_voxels E) (activeVoxels (scan_result E wx wy wz n))"
  shows "distinct (iter_voxels E (activeVoxels (scan_result E wx wy wz n)))"
proof -
  have "distinct (activeVoxels (scan_result E wx wy wz n))"
    using scan_result_inv [of E wx wy wz n] by (simp add: scan_inv_def)
  then show ?thesis
    using assms mset_eq_imp_distinct_iff [of "iter_voxels E (activeVoxels (scan_result E wx wy wz n))"
        "activeVoxels (scan_result E wx wy wz n)"]
    by (simp add: visits_each_once_def)
qed

lemma unit_gather: "gather unit_edges 0 = [(mk_vec4 0 (- (1 / 2)) (- (1 / 2)) 1, mk_vec4 (1 / 500) 0 0 0)]"
  by (simp add: unit_edges_def gather_def gather_step_def ENCODED_EDGE_OFFSETS_def upt_conv_Cons)

lemma plane_place_1:
  "place_result plane_env 0 0 0 1 [] =
     GenerateVertexData plane_env [0] unit_edges Map.empty
       \<lparr>vertices = [], numVertices = 0, triangles = [], numTriangles = 0\<rparr> []"
  unfolding place_result_def Let_def plane_scan_1_fields by (simp add: plane_env_def)

lemma unit_crossings: "recorded_crossings unit_edges 0 = 1"
  by (simp flip: gather_count add: unit_gather)

lemma plane_index_1: "vertexIndices (place_result plane_env 0 0 0 1 []) 0 = None"
  unfolding plane_place_1
  using GenerateVertexData_fields(5) [of "[0]" plane_env unit_edges
      Map.empty "\<lparr>vertices = [], numVertices = 0, triangles = [], numTriangles = 0\<rparr>" "[]"]
  by (simp add: placed_def unit_gather)

lemma plane_qef_calls_1:
  "map (\<lambda>c. snd (snd c)) (qef_calls (place_result plane_env 0 0 0 1 [])) = [1]"
  unfolding plane_place_1
  using GenerateVertexData_fields(4) [of plane_env "[0]" unit_edges
      Map.empty "\<lparr>vertices = [], numVertices = 0, triangles = [], numTriangles = 0\<rparr>" "[]"]
  by (simp add: qef_call_of_def unit_gather)

text \<open>
  Claim C2, as stated, on the grid of one cell around the origin with the plane \<open>x = 0\<close>
  as density: the only active voxel has one recorded crossing, it gets no index, and the
  solver has been called for it with the sample count 1.
\<close>

theorem C2_solver_called_with_one_sample_counterexample:
  "activeVoxels (scan_result plane_env 0 0 0 1) = [0] \<and>
   recorded_crossings (activeEdges (scan_result plane_env 0 0 0 1)) 0 = 1 \<and>
   vertexIndices (place_result plane_env 0 0 0 1 []) 0 = None \<and>
   map (\<lambda>c. snd (snd c)) (qef_calls (place_result plane_env 0 0 0 1 [])) = [1]"
  using plane_index_1 plane_qef_calls_1 unit_crossings
  unfolding plane_scan_1_fields by simp

lemma gather_positions: "map fst (gather edges v) = contributing_positions edges v"
  by (simp add: gather_eq contributing_positions_def comp_def)

lemma qef_call_samples: "qef_call_of edges v = solver_samples edges v"
  by (simp add: qef_call_of_def solver_samples_def gather_positions gather_normals gather_count)

lemma voxel_vertex_xyz:
  "xyz (voxel_vertex E edges v) =
     qef_solve_from_points_4d E (contributing_positions edges v) (contributing_normals edges v)
       (recorded_crossings edges v)"
  by (simp add: voxel_vertex_def Let_def gather_positions gather_normals gather_count)

lemma demo_samples:
  "solver_samples demo_edges 0 = ([mk_vec4 1 0 0 1, mk_vec4 0 1 0 1], [mk_vec4 1 0 0 0, mk_vec4 0 1 0 0], 2)"
  "solver_samples demo_edges 1 = ([], [], 0)"
  by (simp_all flip: qef_call_samples add: qef_call_of_def demo_gather)

lemma unit_samples:
  "solver_samples unit_edges 0 = ([mk_vec4 0 (- (1 / 2)) (- (1 / 2)) 1], [mk_vec4 (1 / 500) 0 0 0], 1)"
  by (simp flip: qef_call_samples add: qef_call_of_def unit_gather)

text \<open>
  Claim C2, amended.  \<open>GenerateVertexData\<close> calls the solver once for every voxel it
  visits, in iteration order, and passes it the positions and the normals of the
  voxel's recorded edges among its 12 canonical edges, in table order, with their number
  as sample count, whatever that number is; the count is at most 12 and is the length of
  both sample arrays.  The vertices written are the solver's results for the voxels with
  at least 2 recorded crossings, in iteration order, and \<open>numVertices\<close> grows by their
  number: a voxel with fewer than 2 gets no vertex, and no index either.  In
  \<open>GenerateMesh\<close> the calls are these for the active voxels and the edge map of the scan,
  and for a grid size up to 1024 every call receives a count of at least 1.
\<close>

theorem C2_solver_called_for_every_voxel:
  "qef_calls (GenerateVertexData E voxels edges Map.empty buf0 cd0)
     = map (solver_samples edges) voxels \<and>
   (\<forall>c\<in>set (qef_calls (GenerateVertexData E voxels edges Map.empty buf0 cd0)).
      snd (snd c) \<le> 12 \<and> length (fst c) = snd (snd c) \<and> length (fst (snd c)) = snd (snd c)) \<and>
   map xyz (vertices (buffer (GenerateVertexData E voxels edges Map.empty buf0 cd0)))
     = map (\<lambda>v. qef_solve_from_points_4d E (contributing_positions edges v)
                  (contributing_normals edges v) (recorded_crossings edges v))
         (filter (\<lambda>v. 2 \<le> recorded_crossings edges v) voxels) \<and>
   numVertices (buffer (GenerateVertexData E voxels edges Map.empty buf0 cd0))
     = numVertices buf0 + length (filter (\<lambda>v. 2 \<le> recorded_crossings edges v) voxels) \<and>
   (distinct voxels \<longrightarrow>
      (\<forall>v\<in>set voxels. recorded_crossings edges v < 2 \<longrightarrow>
         vertexIndices (GenerateVertexData E voxels edges Map.empty buf0 cd0) v = None)) \<and>
   qef_calls (place_result E wx wy wz n cd)
     = map (solver_samples (activeEdges (scan_result E wx wy wz n)))
         (iter_voxels E (activeVoxels (scan_result E wx wy wz n))) \<and>
   (n \<le> 1024 \<and> visits_each_once (iter_voxels E) (activeVoxels (scan_result E wx wy wz n)) \<longrightarrow>
      (\<forall>c\<in>set (qef_calls (place_result E wx wy wz n cd)). 1 \<le> snd (snd c) \<and> snd (snd c) \<le> 12))"
proof -
  let ?st = "GenerateVertexData E voxels edges Map.empty buf0 cd0"
  have q: "qef_calls ?st = map (qef_call_of edges) voxels"
    by (rule GenerateVertexData_fields)
  have A: "qef_calls ?st = map (solver_samples edges) voxels"
    by (simp add: q qef_call_samples)
  have B: "\<forall>c\<in>set (qef_calls ?st).
      snd (snd c) \<le> 12 \<and> length (fst c) = snd (snd c) \<and> length (fst (snd c)) = snd (snd c)"
    using gather_le_12 [of edges] by (auto simp: q qef_call_of_def)
  have V: "map xyz (vertices (buffer ?st))
     = map (\<lambda>v. qef_solve_from_points_4d E (contributing_positions edges v)
                  (contributing_normals edges v) (recorded_crossings edges v))
         (filter (\<lambda>v. 2 \<le> recorded_crossings edges v) voxels)"
    using GenerateVertexData_fields(3) [of E voxels edges Map.empty buf0 cd0]
    by (simp add: placed_conv voxel_vertex_xyz comp_def)
  have N: "numVertices (buffer ?st)
     = numVertices buf0 + length (filter (\<lambda>v. 2 \<le> recorded_crossings edges v) voxels)"
    using GenerateVertexData_fields(2) [of E voxels edges Map.empty buf0 cd0]
    by (simp add: placed_conv)
  have C: "vertexIndices ?st v = None"
    if d: "distinct voxels" and "v \<in> set voxels" "recorded_crossings edges v < 2" for v
  proof -
    let ?K = "placed edges voxels"
    have dK: "distinct ?K" using d by (simp add: placed_def)
    have vi: "vertexIndices ?st = map_of (zip ?K [0..<length ?K])"
      using GenerateVertexData_fields(5) [OF d, of E edges Map.empty buf0 cd0] by simp
    from that have "v \<notin> set ?K" by (simp add: placed_conv)
    then have "v \<notin> dom (vertexIndices ?st)"
      using map_of_zip_upt(1) [OF dK] by (simp add: vi)
    then show ?thesis by auto
  qed
  let ?es = "activeEdges (scan_result E wx wy wz n)"
  let ?vs = "iter_voxels E (activeVoxels (scan_result E wx wy wz n))"
  have P: "qef_calls (place_result E wx wy wz n cd) = map (solver_samples ?es) ?vs"
    unfolding place_result_def Let_def
    by (simp add: GenerateVertexData_fields(4) qef_call_samples)
  have D: "1 \<le> snd (snd c) \<and> snd (snd c) \<le> 12"
    if n: "n \<le> 1024"
      and it: "visits_each_once (iter_voxels E) (activeVoxels (scan_result E wx wy wz n))"
      and c: "c \<in> set (qef_calls (place_result E wx wy wz n cd))" for c
  proof -
    from c obtain v where v: "v \<in> set ?vs" "c = solver_samples ?es v"
      unfolding P by auto
    have "set ?vs = set (activeVoxels (scan_result E wx wy wz n))"
      using it unfolding visits_each_once_def by (rule mset_eq_setD)
    with v(1) have "1 \<le> recorded_crossings ?es v"
      using active_voxel_has_crossing [OF n] by blast
    then show ?thesis
      using gather_le_12 [of ?es v] by (simp add: v(2) solver_samples_def flip: gather_count)
  qed
  from A B V N C P D show ?thesis by blast
qed

theorem C2_solver_called_for_every_voxel_witness:
  "qef_calls (GenerateVertexData plane_env demo_voxels demo_edges Map.empty empty_buffer [])
     = [([mk_vec4 1 0 0 1, mk_vec4 0 1 0 1], [mk_vec4 1 0 0 0, mk_vec4 0 1 0 0], 2), ([], [], 0)] \<and>
   map xyz (vertices (buffer (GenerateVertexData plane_env demo_voxels demo_edges Map.empty empty_buffer [])))
     = [mk_vec4 1 0 0 1] \<and>
   numVertices (buffer (GenerateVertexData plane_env demo_voxels demo_edges Map.empty empty_buffer [])) = 1 \<and>
   vertexIndices (GenerateVertexData plane_env demo_voxels demo_edges Map.empty empty_buffer []) 1 = None \<and>
   qef_calls (place_result plane_env 0 0 0 1 [])
     = [([mk_vec4 0 (- (1 / 2)) (- (1 / 2)) 1], [mk_vec4 (1 / 500) 0 0 0], 1)] \<and>
   1 \<le> snd (snd (hd (qef_calls (place_result plane_env 0 0 0 1 [])))) \<and>
   snd (snd (hd (qef_calls (place_result plane_env 0 0 0 1 [])))) \<le> 12"
proof -
  note T = C2_solver_called_for_every_voxel [of plane_env demo_voxels demo_edges empty_buffer "[]"
      0 0 0 1 "[]"]
  let ?st = "GenerateVertexData plane_env demo_voxels demo_edges Map.empty empty_buffer []"
  have m1: "1 \<in> set demo_voxels" by (simp add: demo_voxels_def)
  have c1: "recorded_crossings demo_edges 1 < 2" by (simp add: demo_crossings)
  have a: "qef_calls ?st
      = [([mk_vec4 1 0 0 1, mk_vec4 0 1 0 1], [mk_vec4 1 0 0 0, mk_vec4 0 1 0 0], 2), ([], [], 0)]"
    unfolding T [THEN conjunct1] by (simp add: demo_voxels_def demo_samples)
  have f: "filter (\<lambda>v. 2 \<le> recorded_crossings demo_edges v) demo_voxels = [0]"
    by (simp add: demo_voxels_def demo_crossings)
  have sm: "contributing_positions demo_edges 0 = [mk_vec4 1 0 0 1, mk_vec4 0 1 0 1]"
    using demo_samples(1) by (simp add: solver_samples_def)
  have v: "map xyz (vertices (buffer ?st)) = [mk_vec4 1 0 0 1]"
    unfolding T [THEN conjunct2, THEN conjunct2, THEN conjunct1] f
    by (simp add: sm plane_env_def)
  have nv: "numVertices (buffer ?st) = 1"
    unfolding T [THEN conjunct2, THEN conjunct2, THEN conjunct2, THEN conjunct1] f
    by (simp add: empty_buffer_def)
  from T demo_distinct m1 c1
  have b: "vertexIndices ?st 1 = None"
    by blast
  have p: "qef_calls (place_result plane_env 0 0 0 1 [])
      = [([mk_vec4 0 (- (1 / 2)) (- (1 / 2)) 1], [mk_vec4 (1 / 500) 0 0 0], 1)]"
    unfolding T [THEN conjunct2, THEN conjunct2, THEN conjunct2, THEN conjunct2, THEN conjunct2,
        THEN conjunct1] plane_scan_1_fields
    by (simp add: plane_env_def unit_samples)
  then have h: "hd (qef_calls (place_result plane_env 0 0 0 1 []))
      \<in> set (qef_calls (place_result plane_env 0 0 0 1 []))"
    by simp
  have pre: "(1::nat) \<le> 1024 \<and>
      visits_each_once (iter_voxels plane_env) (activeVoxels (scan_result plane_env 0 0 0 1))"
    by (simp add: plane_iter)
  note T4 = T [THEN conjunct2, THEN conjunct2, THEN conjunct2, THEN conjunct2, THEN conjunct2,
      THEN conjunct2, THEN mp, OF pre, THEN bspec, OF h]
  from a v nv b p T4 show ?thesis by (intro conjI) simp_all
qed

section \<open>ActiveVoxelScanner: what the loops are sure to record\<close>

lemma fold_reach:
  assumes "x0 \<in> set xs"
    and est: "\<And>s. Q (f x0 s)"
    and pres: "\<And>x s. Q s \<Longrightarrow> Q (f x s)"
  shows "Q (fold f xs s)"
proof -
  from assms(1) obtain ys zs where xs: "xs = ys @ x0 # zs"
    by (auto simp: in_set_conv_decomp)
  have "Q (f x0 (fold f ys s))" by (rule est)
  then have "Q (fold f zs (f x0 (fold f ys s)))"
    by (rule fold_invariant [where P = Q]) (rule pres)
  then show ?thesis by (simp add: xs)
qed

lemma fold_keeps:
  assumes "Q s" and pres: "\<And>x s. Q s \<Longrightarrow> Q (f x s)"
  shows "Q (fold f xs s)"
  using assms(1) by (rule fold_invariant [where P = Q]) (rule pres)

lemma FindActiveVoxels_reach:
  assumes "x < n" "y < n" "z < n" "a < 3"
    and est: "\<And>st. Q (scan_axis E (cell_point wx wy wz n x y z) x y z a st)"
    and pres: "\<And>p x y z a st. Q st \<Longrightarrow> Q (scan_axis E p x y z a st)"
  shows "Q (FindActiveVoxels E wx wy wz n st)"
proof -
  have cell_keeps: "Q (scan_cell E wx wy wz n x' y' z' s)" if "Q s" for x' y' z' s
    unfolding scan_cell_def Let_def using that by (rule fold_keeps) (rule pres)
  have cell_reach: "Q (scan_cell E wx wy wz n x y z s)" for s
    unfolding scan_cell_def Let_def
    by (rule fold_reach [where ?x0.0 = a]) (use assms(4) in simp, rule est, rule pres)
  have row_keeps: "Q (fold (\<lambda>z. scan_cell E wx wy wz n x' y' z) [0..<n] s)" if "Q s" for x' y' s
    using that by (rule fold_keeps) (rule cell_keeps)
  have row_reach: "Q (fold (\<lambda>z. scan_cell E wx wy wz n x y z) [0..<n] s)" for s
    by (rule fold_reach [where ?x0.0 = z]) (use assms(3) in simp, rule cell_reach, rule cell_keeps)
  have slab_keeps: "Q (fold (\<lambda>y. fold (\<lambda>z. scan_cell E wx wy wz n x' y z) [0..<n]) [0..<n] s)"
    if "Q s" for x' s
    using that by (rule fold_keeps) (rule row_keeps)
  have slab_reach: "Q (fold (\<lambda>y. fold (\<lambda>z. scan_cell E wx wy wz n x y z) [0..<n]) [0..<n] s)" for s
    by (rule fold_reach [where ?x0.0 = y]) (use assms(2) in simp, rule row_reach, rule row_keeps)
  show ?thesis
    unfolding FindActiveVoxels_def
    by (rule fold_reach [where ?x0.0 = x]) (use assms(1) in simp, rule slab_reach, rule slab_keeps)
qed

lemma add_node_keeps: "v \<in> set vs \<Longrightarrow> v \<in> set (add_node idxPos a i vs)"
  by (simp add: add_node_def Let_def)

lemma scan_axis_keeps_edge:
  "k \<in> fst ` set (activeEdges st) \<Longrightarrow> k \<in> fst ` set (activeEdges (scan_axis E p x y z a st))"
  by (simp add: scan_axis_def Let_def dom_update)

lemma scan_axis_keeps_voxel:
  "v \<in> set (activeVoxels st) \<Longrightarrow> v \<in> set (activeVoxels (scan_axis E p x y z a st))"
  by (auto simp: scan_axis_def Let_def intro: fold_keeps add_node_keeps)

text \<open>Every crossing edge of the grid is in the edge map after the scan.\<close>

lemma crossing_edge_recorded:
  assumes "x < n" "y < n" "z < n" "a < 3"
    and "zeroCrossing (Density E (cell_point wx wy wz n x y z))
           (Density E (vec4_add (cell_point wx wy wz n x y z) (AXIS_OFFSET ! a)))"
  shows "EncodeAxisUniqueID (of_nat a) (of_nat x) (of_nat y) (of_nat z)
           \<in> fst ` set (activeEdges (scan_result E wx wy wz n))"
  unfolding scan_result_def
proof (rule FindActiveVoxels_reach [OF assms(1-4)])
  fix st :: scan_state
  show "EncodeAxisUniqueID (of_nat a) (of_nat x) (of_nat y) (of_nat z)
      \<in> fst ` set (activeEdges (scan_axis E (cell_point wx wy wz n x y z) x y z a st))"
    using assms(5) by (simp add: scan_axis_def Let_def dom_update)
next
  fix p x' y' z' a' and st :: scan_state
  assume "EncodeAxisUniqueID (of_nat a) (of_nat x) (of_nat y) (of_nat z) \<in> fst ` set (activeEdges st)"
  then show "EncodeAxisUniqueID (of_nat a) (of_nat x) (of_nat y) (of_nat z)
      \<in> fst ` set (activeEdges (scan_axis E p x' y' z' a' st))"
    by (rule scan_axis_keeps_edge)
qed

text \<open>Every neighbour of a crossing edge without a negative coordinate is in the active set.\<close>

lemma crossing_neighbour_active:
  assumes "x < n" "y < n" "z < n" "a < 3" "i < 4"
    and "zeroCrossing (Density E (cell_point wx wy wz n x y z))
           (Density E (vec4_add (cell_point wx wy wz n x y z) (AXIS_OFFSET ! a)))"
    and "\<not> (sint (ix (ivec4_sub (mk_ivec4 (of_nat x) (of_nat y) (of_nat z) 0) (EDGE_NODE_OFFSETS ! a ! i))) < 0
          \<or> sint (iy (ivec4_sub (mk_ivec4 (of_nat x) (of_nat y) (of_nat z) 0) (EDGE_NODE_OFFSETS ! a ! i))) < 0
          \<or> sint (iz (ivec4_sub (mk_ivec4 (of_nat x) (of_nat y) (of_nat z) 0) (EDGE_NODE_OFFSETS ! a ! i))) < 0)"
  shows "EncodeVoxelUniqueID (ivec4_sub (mk_ivec4 (of_nat x) (of_nat y) (of_nat z) 0)
            (EDGE_NODE_OFFSETS ! a ! i))
           \<in> set (activeVoxels (scan_result E wx wy wz n))"
  unfolding scan_result_def
proof (rule FindActiveVoxels_reach [OF assms(1-4)])
  fix st :: scan_state
  let ?idx = "mk_ivec4 (of_nat x) (of_nat y) (of_nat z) 0"
  let ?v = "EncodeVoxelUniqueID (ivec4_sub ?idx (EDGE_NODE_OFFSETS ! a ! i))"
  have "?v \<in> set (fold (add_node ?idx a) [0..<4] (activeVoxels st))"
  proof (rule fold_reach [where ?x0.0 = i])
    show "i \<in> set [0..<4]" using assms(5) by simp
    show "?v \<in> set (add_node ?idx a i s)" for s
      using assms(7) by (simp add: add_node_def Let_def)
    show "?v \<in> set (add_node ?idx a j s)" if "?v \<in> set s" for j s
      using that by (rule add_node_keeps)
  qed
  then show "?v \<in> set (activeVoxels (scan_axis E (cell_point wx wy wz n x y z) x y z a st))"
    using assms(6) by (simp add: scan_axis_def Let_def)
next
  fix p x' y' z' a' and st :: scan_state
  let ?v = "EncodeVoxelUniqueID (ivec4_sub (mk_ivec4 (of_nat x) (of_nat y) (of_nat z) 0)
      (EDGE_NODE_OFFSETS ! a ! i))"
  assume "?v \<in> set (activeVoxels st)"
  then show "?v \<in> set (activeVoxels (scan_axis E p x' y' z' a' st))"
    by (rule scan_axis_keeps_voxel)
qed

lemma two_recorded_crossings:
  assumes "i < 12" "j < 12" "i \<noteq> j"
    and "v + ENCODED_EDGE_OFFSETS ! i \<in> fst ` set edges"
    and "v + ENCODED_EDGE_OFFSETS ! j \<in> fst ` set edges"
  shows "2 \<le> recorded_crossings edges v"
proof -
  let ?S = "{i. i < 12 \<and> map_of edges (v + ENCODED_EDGE_OFFSETS ! i) \<noteq> None}"
  have "{i, j} \<subseteq> ?S" using assms by (simp add: map_of_eq_None_iff)
  moreover have "finite ?S" by simp
  ultimately have "card {i, j} \<le> card ?S" by (rule card_mono [rotated])
  then show ?thesis using assms(3) by (simp add: recorded_crossings_def)
qed

lemma pipeline_vertex_index:
  assumes "visits_each_once (iter_voxels E) (activeVoxels (scan_result E wx wy wz n))"
    and "v \<in> set (activeVoxels (scan_result E wx wy wz n))"
    and "2 \<le> recorded_crossings (activeEdges (scan_result E wx wy wz n)) v"
  shows "\<exists>i. vertexIndices (place_result E wx wy wz n cd) v = Some i"
proof -
  let ?es = "activeEdges (scan_result E wx wy wz n)"
  let ?vs = "iter_voxels E (activeVoxels (scan_result E wx wy wz n))"
  let ?K = "placed ?es ?vs"
  have d: "distinct ?vs" using assms(1) by (rule pipeline_voxels_distinct)
  then have dK: "distinct ?K" by (simp add: placed_def)
  have "set ?vs = set (activeVoxels (scan_result E wx wy wz n))"
    using assms(1) unfolding visits_each_once_def by (rule mset_eq_setD)
  with assms(2,3) have "v \<in> set ?K" by (simp add: placed_conv)
  then obtain j where j: "j < length ?K" "?K ! j = v" by (auto simp: in_set_conv_nth)
  have "map_of (zip ?K [0..<length ?K]) (?K ! j) = Some j"
    using dK j(1) by (rule map_of_zip_upt(3))
  moreover have "vertexIndices (place_result E wx wy wz n cd) = map_of (zip ?K [0..<length ?K])"
    unfolding place_result_def Let_def
    using GenerateVertexData_fields(5) [OF d, of E ?es Map.empty _ cd] by simp
  ultimately show ?thesis unfolding j(2) by simp
qed

lemma pipeline_triangles:
  assumes "n \<le> 1024"
    and "visits_each_once (iter_edges E) (activeEdges (scan_result E wx wy wz n))"
  shows "\<exists>buf. GenerateMesh E wx wy wz n cd = Inr buf \<and>
            triangles buf = concat (map (candidate_triangles (vertexIndices (place_result E wx wy wz n cd)))
                                     (iter_edges E (activeEdges (scan_result E wx wy wz n)))) \<and>
            numTriangles buf = length (triangles buf)"
proof -
  have "set (iter_edges E (activeEdges (scan_result E wx wy wz n)))
      = set (activeEdges (scan_result E wx wy wz n))"
    using assms(2) unfolding visits_each_once_def by (rule mset_eq_setD)
  then have "\<forall>e\<in>set (iter_edges E (activeEdges (scan_result E wx wy wz n))). edge_axis (fst e) < 3"
    using recorded_edge_facts(1) [OF assms(1), of _ E wx wy wz] by blast
  from triangles_loop_ok [OF this] show ?thesis
    by (simp add: GenerateMesh_def GenerateTriangles_def Let_def)
qed

section \<open>Packed subtraction with a borrow\<close>

lemma borrow_int:
  fixes x y z a b c :: int
  assumes "0 \<le> x" "x < 1024" "0 \<le> y" "y < 1024" "0 \<le> z" "z < 1024"
    and "a = 0 \<or> a = 1" "b = 0 \<or> b = 1" "c = 0 \<or> c = 1"
    and "\<not> (a \<le> x \<and> b \<le> y \<and> c \<le> z)"
  defines "D \<equiv> (x + 1024 * y + 1048576 * z) - (a + 1024 * b + 1048576 * c)"
  shows "D mod 1024 = 1023 \<or> D div 1024 mod 1024 = 1023 \<or> D div 1048576 mod 1024 = 1023"
proof -
  have m1: "(1023 + 1024 * k) mod 1024 = (1023::int)" for k by simp
  have d1: "(r + 1024 * k) div 1024 = k" if "0 \<le> r" "r < 1024" for r k :: int
    using that by simp
  have d2: "(r + 1048576 * k) div 1048576 = k" if "0 \<le> r" "r < 1048576" for r k :: int
    using that by simp
  consider (X) "a = 1" "x = 0" | (Y) "a \<le> x" "b = 1" "y = 0" | (Z) "a \<le> x" "b \<le> y" "c = 1" "z = 0"
    using assms(1-10) by fastforce
  then show ?thesis
  proof cases
    case X
    have "D = 1023 + 1024 * (y - b + 1024 * (z - c) - 1)"
      by (simp add: D_def X algebra_simps)
    then have "D mod 1024 = 1023" by (simp only: m1)
    then show ?thesis by simp
  next
    case Y
    define r where "r = x - a"
    have r: "0 \<le> r" "r < 1024" using Y(1) assms(2,7) by (auto simp: r_def)
    have "D = r + 1024 * (1023 + 1024 * (z - c - 1))"
      by (simp add: D_def Y r_def algebra_simps)
    then have "D div 1024 = 1023 + 1024 * (z - c - 1)"
      using r by (simp only: d1)
    then have "D div 1024 mod 1024 = 1023" by (simp only: m1)
    then show ?thesis by simp
  next
    case Z
    define r where "r = (x - a) + 1024 * (y - b)"
    have r: "0 \<le> r" "r < 1048576" using Z(1,2) assms(2,4,7,8) by (auto simp: r_def)
    have "D = r + 1048576 * (- 1)"
      by (simp add: D_def Z r_def algebra_simps)
    then have "D div 1048576 = - 1"
      using r by (simp only: d2)
    then have "D div 1048576 mod 1024 = 1023" by simp
    then show ?thesis by simp
  qed
qed

lemma int_fields:
  fixes k :: int
  shows "take_bit 10 (take_bit 32 k) = k mod 1024"
    "take_bit 10 (drop_bit 10 (take_bit 32 k)) = k div 1024 mod 1024"
    "take_bit 10 (drop_bit 20 (take_bit 32 k)) = k div 1048576 mod 1024"
proof -
  have p: "(2::int) ^ 10 = 1024" "(2::int) ^ 20 = 1048576" by simp_all
  have "take_bit 10 (take_bit 32 k) = take_bit 10 k"
    by (simp only: take_bit_take_bit min_def; simp)
  then show "take_bit 10 (take_bit 32 k) = k mod 1024"
    by (simp only: take_bit_eq_mod p)
  have "take_bit 10 (drop_bit 10 (take_bit 32 k)) = take_bit 10 (take_bit 22 (drop_bit 10 k))"
    by (simp only: drop_bit_take_bit; simp)
  also have "\<dots> = take_bit 10 (drop_bit 10 k)"
    by (simp only: take_bit_take_bit min_def; simp)
  finally show "take_bit 10 (drop_bit 10 (take_bit 32 k)) = k div 1024 mod 1024"
    by (simp only: take_bit_eq_mod drop_bit_eq_div p)
  have "take_bit 10 (drop_bit 20 (take_bit 32 k)) = take_bit 10 (take_bit 12 (drop_bit 20 k))"
    by (simp only: drop_bit_take_bit; simp)
  also have "\<dots> = take_bit 10 (drop_bit 20 k)"
    by (simp only: take_bit_take_bit min_def; simp)
  finally show "take_bit 10 (drop_bit 20 (take_bit 32 k)) = k div 1048576 mod 1024"
    by (simp only: take_bit_eq_mod drop_bit_eq_div p)
qed

lemma uint_packed:
  fixes X Y Z :: "32 word"
  assumes "X < 1024" "Y < 1024" "Z < 1024"
  shows "uint (X + 1024 * Y + 1048576 * Z) = uint X + 1024 * uint Y + 1048576 * uint Z"
proof -
  have b: "uint X < 1024" "uint Y < 1024" "uint Z < 1024"
    using assms by (simp_all add: word_less_def)
  have p: "0 \<le> uint X" "0 \<le> uint Y" "0 \<le> uint Z" by simp_all
  have "uint (X + 1024 * Y + 1048576 * Z)
      = (uint X + 1024 * uint Y + 1048576 * uint Z) mod 4294967296"
    by (simp add: uint_word_ariths mod_simps)
  also have "\<dots> = uint X + 1024 * uint Y + 1048576 * uint Z"
    using b p by (intro mod_pos_pos_trivial) simp_all
  finally show ?thesis .
qed

lemma borrow_fields:
  fixes X Y Z ox oy oz :: "32 word"
  assumes "X < 1024" "Y < 1024" "Z < 1024"
    and "ox = 0 \<or> ox = 1" "oy = 0 \<or> oy = 1" "oz = 0 \<or> oz = 1"
    and "\<not> (ox \<le> X \<and> oy \<le> Y \<and> oz \<le> Z)"
  defines "w \<equiv> (X + 1024 * Y + 1048576 * Z) - (ox + 1024 * oy + 1048576 * oz)"
  shows "take_bit 10 w = 1023 \<or> take_bit 10 (drop_bit 10 w) = 1023
       \<or> take_bit 10 (drop_bit 20 w) = 1023"
proof -
  let ?D = "(uint X + 1024 * uint Y + 1048576 * uint Z) - (uint ox + 1024 * uint oy + 1048576 * uint oz)"
  have o: "ox < 1024" "oy < 1024" "oz < 1024" using assms(4-6) by auto
  have "uint w = take_bit 32 (uint (X + 1024 * Y + 1048576 * Z)
      - uint (ox + 1024 * oy + 1048576 * oz))"
    unfolding w_def by (subst uint_word_arith_bintrs(2)) simp
  then have uw: "uint w = take_bit 32 ?D"
    unfolding uint_packed [OF assms(1-3)] uint_packed [OF o] .
  note k = int_fields
  have u: "uint (take_bit 10 w) = take_bit 10 (uint w)"
    "uint (take_bit 10 (drop_bit 10 w)) = take_bit 10 (drop_bit 10 (uint w))"
    "uint (take_bit 10 (drop_bit 20 w)) = take_bit 10 (drop_bit 20 (uint w))"
    by (simp_all add: unsigned_take_bit_eq unsigned_drop_bit_eq drop_bit_take_bit)
  have f0: "uint (take_bit 10 w) = ?D mod 1024"
    unfolding u uw by (rule k)
  have f1: "uint (take_bit 10 (drop_bit 10 w)) = ?D div 1024 mod 1024"
    unfolding u uw by (rule k)
  have f2: "uint (take_bit 10 (drop_bit 20 w)) = ?D div 1048576 mod 1024"
    unfolding u uw by (rule k)
  have b: "uint X < 1024" "uint Y < 1024" "uint Z < 1024"
    using assms(1-3) by (simp_all add: word_less_def)
  have c: "uint ox = 0 \<or> uint ox = 1" "uint oy = 0 \<or> uint oy = 1" "uint oz = 0 \<or> uint oz = 1"
    using assms(4-6) by auto
  have n: "\<not> (uint ox \<le> uint X \<and> uint oy \<le> uint Y \<and> uint oz \<le> uint Z)"
    using assms(7) by (simp add: word_le_def)
  have "?D mod 1024 = 1023 \<or> ?D div 1024 mod 1024 = 1023 \<or> ?D div 1048576 mod 1024 = 1023"
    using b c n by (intro borrow_int) simp_all
  then have "uint (take_bit 10 w) = uint (1023 :: 32 word)
      \<or> uint (take_bit 10 (drop_bit 10 w)) = uint (1023 :: 32 word)
      \<or> uint (take_bit 10 (drop_bit 20 w)) = uint (1023 :: 32 word)"
    unfolding f0 f1 f2 by simp
  then show ?thesis by (simp only: word_uint_eq_iff)
qed

text \<open>
  A borrow in the packed subtraction leaves 1023 in one of the three fields: the result
  is the ID of no cell of a grid of fewer than 1024 cells per axis.
\<close>

lemma table_subtract_borrow:
  fixes X Y Z :: "32 word"
  assumes "X < 1024" "Y < 1024" "Z < 1024" "a < 3" "i < 4"
    and "\<not> (ix (EDGE_NODE_OFFSETS ! a ! i) \<le> X \<and> iy (EDGE_NODE_OFFSETS ! a ! i) \<le> Y \<and>
            iz (EDGE_NODE_OFFSETS ! a ! i) \<le> Z)"
  shows "\<not> in_grid 1023 (DecodeVoxelUniqueID
           (EncodeVoxelUniqueID (mk_ivec4 X Y Z 0) - ENCODED_EDGE_NODE_OFFSETS ! (4 * a + i)))"
proof -
  let ?o = "EDGE_NODE_OFFSETS ! a ! i"
  let ?w = "(X + 1024 * Y + 1048576 * Z) - (ix ?o + 1024 * iy ?o + 1048576 * iz ?o)"
  note sh = offsets_shape [OF assms(4,5)]
  have w: "EncodeVoxelUniqueID (mk_ivec4 X Y Z 0) - ENCODED_EDGE_NODE_OFFSETS ! (4 * a + i) = ?w"
    unfolding voxel_key_linear [OF assms(1-3)] node_offset_entry [OF assms(4,5)] ..
  have dec: "DecodeVoxelUniqueID v
      = mk_ivec4 (take_bit 10 v) (take_bit 10 (drop_bit 10 v)) (take_bit 10 (drop_bit 20 v)) 0" for v
    unfolding DecodeVoxelUniqueID_def mask_0x3ff take_bit_eq_mask ..
  have ng: "\<not> in_grid 1023 (mk_ivec4 p q r 0)" if "p = 1023 \<or> q = 1023 \<or> r = 1023"
    for p q r :: "32 word"
    using that by (auto simp: in_grid_def mk_ivec4_def)
  show ?thesis
    unfolding w dec by (rule ng) (rule borrow_fields [OF assms(1-3) sh(2-4) assms(6)])
qed

section \<open>Triangulator: two triangles per resolved edge\<close>

lemma offset_coord:
  fixes ox :: "32 word"
  assumes "x < 1024" "ox = 0 \<or> ox = 1"
  shows "(ox \<le> of_nat x) = (\<not> int x - sint ox < 0)"
    and "of_int (int x - sint ox) = (of_nat x - ox :: 32 word)"
proof -
  have "unat (of_nat x :: 32 word) = x" using assms(1) by (simp add: unat_of_nat)
  then show "(ox \<le> of_nat x) = (\<not> int x - sint ox < 0)"
    using assms(2) by (auto simp: word_le_nat_alt)
  show "of_int (int x - sint ox) = (of_nat x - ox :: 32 word)"
    using assms(2) by auto
qed

lemma sharing_cells_nth:
  assumes "a < 3" "i < 4"
  shows "sharing_cells a c ! i
       = (fst c - sint (ix (EDGE_NODE_OFFSETS ! a ! i)), fst (snd c) - sint (iy (EDGE_NODE_OFFSETS ! a ! i)),
          snd (snd c) - sint (iz (EDGE_NODE_OFFSETS ! a ! i)))"
  using axis_corner_cases [OF assms]
  by (auto simp: sharing_cells_def EDGE_NODE_OFFSETS_def)

lemma sharing_cells_length: "a < 3 \<Longrightarrow> length (sharing_cells a c) = 4"
  using axis_corner_cases [of a 0]
  by (auto simp: sharing_cells_def EDGE_NODE_OFFSETS_def)

lemma candidate_index:
  assumes n: "n \<le> 1023" and b: "x < n" "y < n" "z < n" "a < 3" "i < 4"
    and d: "\<forall>v\<in>dom vi. in_grid n (DecodeVoxelUniqueID v)"
  shows "vi (EncodeVoxelUniqueID (mk_ivec4 (of_nat x) (of_nat y) (of_nat z) 0)
             - ENCODED_EDGE_NODE_OFFSETS ! (4 * a + i))
       = cell_index vi (sharing_cells a (int x, int y, int z) ! i)"
proof -
  let ?X = "of_nat x :: 32 word" and ?Y = "of_nat y :: 32 word" and ?Z = "of_nat z :: 32 word"
  let ?o = "EDGE_NODE_OFFSETS ! a ! i"
  let ?c = "EncodeVoxelUniqueID (mk_ivec4 ?X ?Y ?Z 0) - ENCODED_EDGE_NODE_OFFSETS ! (4 * a + i)"
  have lt: "x < 1024" "y < 1024" "z < 1024" using n b by simp_all
  have small: "?X < 1024" "?Y < 1024" "?Z < 1024"
    using lt by (simp_all add: of_nat_small)
  note sh = offsets_shape [OF b(4,5)]
  note cx = offset_coord [OF lt(1) sh(2)] and cy = offset_coord [OF lt(2) sh(3)]
    and cz = offset_coord [OF lt(3) sh(4)]
  have cell: "cell_index vi (sharing_cells a (int x, int y, int z) ! i)
      = (if ix ?o \<le> ?X \<and> iy ?o \<le> ?Y \<and> iz ?o \<le> ?Z
         then vi (EncodeVoxelUniqueID (mk_ivec4 (?X - ix ?o) (?Y - iy ?o) (?Z - iz ?o) 0))
         else None)"
    unfolding sharing_cells_nth [OF b(4,5)] cell_index_def cx(1) cy(1) cz(1)
    by (simp add: cx(2) cy(2) cz(2))
  show ?thesis
  proof (cases "ix ?o \<le> ?X \<and> iy ?o \<le> ?Y \<and> iz ?o \<le> ?Z")
    case True
    then have "?c = EncodeVoxelUniqueID (ivec4_sub (mk_ivec4 ?X ?Y ?Z 0) ?o)"
      using table_subtract [OF small b(4,5)] by simp
    also have "ivec4_sub (mk_ivec4 ?X ?Y ?Z 0) ?o = mk_ivec4 (?X - ix ?o) (?Y - iy ?o) (?Z - iz ?o) 0"
      by (simp add: ivec4_sub_def mk_ivec4_def sh(1))
    finally show ?thesis using True by (simp add: cell)
  next
    case False
    then have "\<not> in_grid 1023 (DecodeVoxelUniqueID ?c)"
      by (rule table_subtract_borrow [OF small b(4,5)])
    then have "\<not> in_grid n (DecodeVoxelUniqueID ?c)"
      using in_grid_mono [OF _ n] by blast
    with d have "?c \<notin> dom vi" by blast
    then have "vi ?c = None" by (simp add: domIff)
    moreover have "cell_index vi (sharing_cells a (int x, int y, int z) ! i) = None"
      unfolding cell using False by (rule if_not_P)
    ultimately show ?thesis by simp
  qed
qed

text \<open>
  Below 1024 cells per axis the Triangulator emits for a recorded edge exactly the quad
  over the four grid cells around it.
\<close>

lemma quad_within_1023:
  assumes n: "n \<le> 1023" and b: "x < n" "y < n" "z < n" "a < 3"
    and d: "\<forall>v\<in>dom vi. in_grid n (DecodeVoxelUniqueID v)"
  shows "edge_triangles vi (EncodeAxisUniqueID (of_nat a) (of_nat x) (of_nat y) (of_nat z), info)
       = Inr (claimed_quad vi a (int x, int y, int z) (winding info))"
proof -
  let ?k = "EncodeAxisUniqueID (of_nat a) (of_nat x) (of_nat y) (of_nat z)"
  let ?V = "EncodeVoxelUniqueID (mk_ivec4 (of_nat x) (of_nat y) (of_nat z) 0)"
  have small: "(of_nat x :: 32 word) < 1024" "(of_nat y :: 32 word) < 1024"
    "(of_nat z :: 32 word) < 1024"
    using n b by (simp_all add: of_nat_small)
  have a4: "(of_nat a :: 32 word) < 4" and ua: "unat (of_nat a :: 32 word) = a"
    using b(4) by (simp_all add: word_less_nat_alt unat_of_nat)
  have ax: "edge_axis ?k = a"
    unfolding edge_key_decode(1) [OF small a4] by (rule ua)
  have nid: "edge_nodeID ?k = ?V"
    by (rule edge_key_decode(2) [OF small a4])
  have sv: "sharing_voxels ?k = map (\<lambda>i. ?V - ENCODED_EDGE_NODE_OFFSETS ! (4 * a + i)) [0..<4]"
    by (simp add: sharing_voxels_def ax nid mult.commute)
  have eq: "map vi (sharing_voxels ?k) = map (cell_index vi) (sharing_cells a (int x, int y, int z))"
    unfolding sv
    by (rule nth_equalityI)
      (simp_all add: sharing_cells_length [OF b(4)] candidate_index [OF n b _ d])
  obtain s0 s1 s2 s3 where s: "sharing_voxels ?k = [s0, s1, s2, s3]"
    by (simp add: sharing_voxels_list)
  have "length (map (cell_index vi) (sharing_cells a (int x, int y, int z))) = 4"
    by (simp add: sharing_cells_length [OF b(4)])
  then obtain c0 c1 c2 c3 where
    c: "map (cell_index vi) (sharing_cells a (int x, int y, int z)) = [c0, c1, c2, c3]"
    by (auto simp: length_Suc_conv numeral_eq_Suc)
  from eq have vs: "vi s0 = c0" "vi s1 = c1" "vi s2 = c2" "vi s3 = c3"
    unfolding s c by simp_all
  have "edge_triangles vi (?k, info) = Inr (candidate_triangles vi (?k, info))"
    by (rule edge_triangles_ok) (simp add: ax b(4))
  also have "candidate_triangles vi (?k, info) = claimed_quad vi a (int x, int y, int z) (winding info)"
    unfolding candidate_triangles_def claimed_quad_def c Let_def fst_conv snd_conv s
    by (simp add: vs)
  finally show ?thesis .
qed

lemma pipeline_index_in_grid:
  assumes "visits_each_once (iter_voxels E) (activeVoxels (scan_result E wx wy wz n))"
  shows "\<forall>v\<in>dom (vertexIndices (place_result E wx wy wz n cd)). in_grid n (DecodeVoxelUniqueID v)"
proof
  fix v assume "v \<in> dom (vertexIndices (place_result E wx wy wz n cd))"
  then have "v \<in> set (iter_voxels E (activeVoxels (scan_result E wx wy wz n)))"
    unfolding place_result_def Let_def using GenerateVertexData_dom by fastforce
  moreover have "set (iter_voxels E (activeVoxels (scan_result E wx wy wz n)))
      = set (activeVoxels (scan_result E wx wy wz n))"
    using assms unfolding visits_each_once_def by (rule mset_eq_setD)
  ultimately show "in_grid n (DecodeVoxelUniqueID v)"
    using active_in_grid by blast
qed

text \<open>
  For fewer than 1024 cells per axis the triangle list of \<open>GenerateMesh\<close> is, edge by
  edge in iteration order, the quad over the four grid cells around the edge as the scan
  recorded it, present when all four have a vertex.
\<close>

lemma triangles_within_1023:
  assumes "n \<le> 1023"
    and "visits_each_once (iter_voxels E) (activeVoxels (scan_result E wx wy wz n))"
    and "visits_each_once (iter_edges E) (activeEdges (scan_result E wx wy wz n))"
  shows "\<exists>buf qs. GenerateMesh E wx wy wz n cd = Inr buf \<and>
           triangles buf = concat qs \<and> numTriangles buf = length (triangles buf) \<and>
           list_all2
             (\<lambda>e q. \<exists>x<n. \<exists>y<n. \<exists>z<n. \<exists>a<3. recorded_at E wx wy wz n x y z a e \<and>
                q = claimed_quad (vertexIndices (place_result E wx wy wz n cd)) a
                      (int x, int y, int z) (0 \<le> Density E (cell_point wx wy wz n x y z)))
             (iter_edges E (activeEdges (scan_result E wx wy wz n))) qs"
proof -
  let ?vi = "vertexIndices (place_result E wx wy wz n cd)"
  let ?es = "iter_edges E (activeEdges (scan_result E wx wy wz n))"
  let ?P = "\<lambda>e q. \<exists>x<n. \<exists>y<n. \<exists>z<n. \<exists>a<3. recorded_at E wx wy wz n x y z a e \<and>
      q = claimed_quad ?vi a (int x, int y, int z) (0 \<le> Density E (cell_point wx wy wz n x y z))"
  have n: "n \<le> 1024" using assms(1) by simp
  from pipeline_triangles [OF n assms(3), of cd] obtain buf where
    buf: "GenerateMesh E wx wy wz n cd = Inr buf"
      "triangles buf = concat (map (candidate_triangles ?vi) ?es)"
      "numTriangles buf = length (triangles buf)"
    by blast
  have set_es: "set ?es = set (activeEdges (scan_result E wx wy wz n))"
    using assms(3) unfolding visits_each_once_def by (rule mset_eq_setD)
  note d = pipeline_index_in_grid [OF assms(2), of cd]
  have "?P e (candidate_triangles ?vi e)" if "e \<in> set ?es" for e
  proof -
    from that set_es scan_result_inv [of E wx wy wz n] obtain x y z a where
      b: "x < n" "y < n" "z < n" "a < 3" and r: "recorded_at E wx wy wz n x y z a e"
      unfolding scan_inv_def by blast
    let ?k = "EncodeAxisUniqueID (of_nat a) (of_nat x) (of_nat y) (of_nat z)"
    have e: "e = (?k, snd e)" using r by (cases e) (simp add: recorded_at_def)
    have w: "winding (snd e) = (0 \<le> Density E (cell_point wx wy wz n x y z))"
      using r by (simp add: recorded_at_def edge_info_def Let_def)
    have small: "(of_nat x :: 32 word) < 1024" "(of_nat y :: 32 word) < 1024"
      "(of_nat z :: 32 word) < 1024"
      using b n by (simp_all add: of_nat_small)
    have a4: "(of_nat a :: 32 word) < 4" and ua: "unat (of_nat a :: 32 word) = a"
      using b(4) by (simp_all add: word_less_nat_alt unat_of_nat)
    have "edge_axis (fst (?k, snd e)) < 3"
      unfolding fst_conv edge_key_decode(1) [OF small a4] ua by (rule b(4))
    from edge_triangles_ok [OF this, of ?vi] quad_within_1023 [OF assms(1) b d, of "snd e"]
    have "candidate_triangles ?vi (?k, snd e)
        = claimed_quad ?vi a (int x, int y, int z) (winding (snd e))"
      by simp
    then have "candidate_triangles ?vi e
        = claimed_quad ?vi a (int x, int y, int z) (0 \<le> Density E (cell_point wx wy wz n x y z))"
      unfolding w using e by simp
    with b r show ?thesis by blast
  qed
  then have "list_all2 ?P ?es (map (candidate_triangles ?vi) ?es)"
    by (simp add: list_all2_map2 list_all2_same)
  with buf show ?thesis by blast
qed

text \<open>
  On the grid of two cells per axis around the origin, the edge from \<open>(0, 1, 1)\<close> along
  axis 0 is shared by the cells \<open>(0, 1, 1)\<close>, \<open>(0, 1, 0)\<close>, \<open>(0, 0, 1)\<close>, \<open>(0, 0, 0)\<close>, which
  have the indices 0 to 3; its winding flag is not set.
\<close>

lemma corner_quad:
  "sharing_cells 0 (0, 1, 1) = [(0, 1, 1), (0, 1, 0), (0, 0, 1), (0, 0, 0)]"
  "claimed_quad (vertexIndices (place_result corner_env 0 0 0 2 [])) 0 (0, 1, 1) False
     = [(0, 3, 1), (0, 2, 3)]"
proof -
  show sc: "sharing_cells 0 (0, 1, 1) = [(0, 1, 1), (0, 1, 0), (0, 0, 1), (0, 0, 0)]"
    by (simp add: sharing_cells_def EDGE_NODE_OFFSETS_def mk_ivec4_def)
  show "claimed_quad (vertexIndices (place_result corner_env 0 0 0 2 [])) 0 (0, 1, 1) False
     = [(0, 3, 1), (0, 2, 3)]"
    unfolding claimed_quad_def sc corner_place_2
    by (simp add: cell_index_def EncodeVoxelUniqueID_def mk_ivec4_def)
qed

text \<open>The grid of 1024 cells per axis whose point \<open>(x, y, z)\<close> lies at \<open>(x - 1024, y - 5, z - 512)\<close>.\<close>

lemma wrap_point:
  "cell_point (- 512) 507 0 1024 x y z = mk_vec4 (real x - 1024) (real y - 5) (real z - 512) 1"
  by (simp add: cell_point_def Let_def)

lemma wrap_cross_y:
  "zeroCrossing (Density corner_env (cell_point (- 512) 507 0 1024 0 5 z))
     (Density corner_env (vec4_add (cell_point (- 512) 507 0 1024 0 5 z) (AXIS_OFFSET ! 1)))"
  by (simp add: wrap_point zeroCrossing_def Density_def corner_env_def vec3_of_def vec4_add_def
        AXIS_OFFSET_def mk_vec4_def)

lemma wrap_cross_x:
  "zeroCrossing (Density corner_env (cell_point (- 512) 507 0 1024 1023 4 z))
     (Density corner_env (vec4_add (cell_point (- 512) 507 0 1024 1023 4 z) (AXIS_OFFSET ! 0)))"
  by (simp add: wrap_point zeroCrossing_def Density_def corner_env_def vec3_of_def vec4_add_def
        AXIS_OFFSET_def mk_vec4_def)

lemma wrap_edges:
  "0x40201400 \<in> fst ` set (activeEdges (scan_result corner_env (- 512) 507 0 1024))"
  "0x40301400 \<in> fst ` set (activeEdges (scan_result corner_env (- 512) 507 0 1024))"
  "0x40401400 \<in> fst ` set (activeEdges (scan_result corner_env (- 512) 507 0 1024))"
  "0x002013FF \<in> fst ` set (activeEdges (scan_result corner_env (- 512) 507 0 1024))"
  "0x003013FF \<in> fst ` set (activeEdges (scan_result corner_env (- 512) 507 0 1024))"
  "0x004013FF \<in> fst ` set (activeEdges (scan_result corner_env (- 512) 507 0 1024))"
  using crossing_edge_recorded [OF _ _ _ _ wrap_cross_y [of 2]]
    crossing_edge_recorded [OF _ _ _ _ wrap_cross_y [of 3]]
    crossing_edge_recorded [OF _ _ _ _ wrap_cross_y [of 4]]
    crossing_edge_recorded [OF _ _ _ _ wrap_cross_x [of 2]]
    crossing_edge_recorded [OF _ _ _ _ wrap_cross_x [of 3]]
    crossing_edge_recorded [OF _ _ _ _ wrap_cross_x [of 4]]
  by (simp_all add: EncodeAxisUniqueID_def)

lemma wrap_voxels:
  "0x00201400 \<in> set (activeVoxels (scan_result corner_env (- 512) 507 0 1024))"
  "0x00301400 \<in> set (activeVoxels (scan_result corner_env (- 512) 507 0 1024))"
  "0x002013FF \<in> set (activeVoxels (scan_result corner_env (- 512) 507 0 1024))"
  "0x003013FF \<in> set (activeVoxels (scan_result corner_env (- 512) 507 0 1024))"
  using crossing_neighbour_active [OF _ _ _ _ _ wrap_cross_y [of 2], of 0]
    crossing_neighbour_active [OF _ _ _ _ _ wrap_cross_y [of 3], of 0]
    crossing_neighbour_active [OF _ _ _ _ _ wrap_cross_x [of 2], of 0]
    crossing_neighbour_active [OF _ _ _ _ _ wrap_cross_x [of 3], of 0]
  by (simp_all add: EDGE_NODE_OFFSETS_def ivec4_sub_def mk_ivec4_def EncodeVoxelUniqueID_def)

lemma wrap_crossings:
  "2 \<le> recorded_crossings (activeEdges (scan_result corner_env (- 512) 507 0 1024)) 0x00201400"
  "2 \<le> recorded_crossings (activeEdges (scan_result corner_env (- 512) 507 0 1024)) 0x00301400"
  "2 \<le> recorded_crossings (activeEdges (scan_result corner_env (- 512) 507 0 1024)) 0x002013FF"
  "2 \<le> recorded_crossings (activeEdges (scan_result corner_env (- 512) 507 0 1024)) 0x003013FF"
proof -
  let ?es = "activeEdges (scan_result corner_env (- 512) 507 0 1024)"
  show "2 \<le> recorded_crossings ?es 0x00201400"
    by (rule two_recorded_crossings [of 4 5]) (simp_all add: ENCODED_EDGE_OFFSETS_def wrap_edges)
  show "2 \<le> recorded_crossings ?es 0x00301400"
    by (rule two_recorded_crossings [of 4 5]) (simp_all add: ENCODED_EDGE_OFFSETS_def wrap_edges)
  show "2 \<le> recorded_crossings ?es 0x002013FF"
    by (rule two_recorded_crossings [of 0 1]) (simp_all add: ENCODED_EDGE_OFFSETS_def wrap_edges)
  show "2 \<le> recorded_crossings ?es 0x003013FF"
    by (rule two_recorded_crossings [of 0 1]) (simp_all add: ENCODED_EDGE_OFFSETS_def wrap_edges)
qed

text \<open>
  Claim C1 does not hold of the code at 1024 cells per axis.  With the origin
  \<open>(-512, 507, 0)\<close> and the density of \<open>corner_env\<close>, the edge from grid point
  \<open>(0, 5, 3)\<close> along axis 1 is a recorded crossing.  The cells sharing it are
  \<open>(0, 5, 3)\<close>, \<open>(-1, 5, 3)\<close>, \<open>(0, 5, 2)\<close>, \<open>(-1, 5, 2)\<close>; two of them are no voxels
  of the grid, so the edge is to contribute nothing.  \<open>GenerateTriangles\<close> subtracts the
  packed offsets from the packed ID: for \<open>x = 0\<close> the subtraction borrows from the \<open>y\<close>
  field and yields the IDs of the voxels \<open>(1023, 4, 3)\<close> and \<open>(1023, 4, 2)\<close> on the
  opposite face of the grid.  Both have a vertex, all four lookups succeed, and the two
  triangles \<open>(i0, i3, i1)\<close>, \<open>(i0, i2, i3)\<close> are in the buffer that \<open>GenerateMesh\<close> returns.
\<close>

theorem C1_quad_on_voxels_not_sharing_the_edge:
  "\<exists>buf info i0 i1 i2 i3.
     GenerateMesh corner_env (- 512) 507 0 1024 [] = Inr buf \<and>
     map_of (activeEdges (scan_result corner_env (- 512) 507 0 1024)) (EncodeAxisUniqueID 1 0 5 3)
       = Some info \<and>
     sharing_cells 1 (0, 5, 3) = [(0, 5, 3), (- 1, 5, 3), (0, 5, 2), (- 1, 5, 2)] \<and>
     claimed_quad (vertexIndices (place_result corner_env (- 512) 507 0 1024 [])) 1 (0, 5, 3)
       (winding info) = [] \<and>
     vertexIndices (place_result corner_env (- 512) 507 0 1024 [])
       (EncodeVoxelUniqueID (mk_ivec4 0 5 3 0)) = Some i0 \<and>
     vertexIndices (place_result corner_env (- 512) 507 0 1024 [])
       (EncodeVoxelUniqueID (mk_ivec4 1023 4 3 0)) = Some i1 \<and>
     vertexIndices (place_result corner_env (- 512) 507 0 1024 [])
       (EncodeVoxelUniqueID (mk_ivec4 0 5 2 0)) = Some i2 \<and>
     vertexIndices (place_result corner_env (- 512) 507 0 1024 [])
       (EncodeVoxelUniqueID (mk_ivec4 1023 4 2 0)) = Some i3 \<and>
     edge_triangles (vertexIndices (place_result corner_env (- 512) 507 0 1024 []))
       (EncodeAxisUniqueID 1 0 5 3, info) = Inr [(i0, i3, i1), (i0, i2, i3)] \<and>
     (i0, i3, i1) \<in> set (triangles buf) \<and> (i0, i2, i3) \<in> set (triangles buf)"
proof -
  let ?sr = "scan_result corner_env (- 512) 507 0 1024"
  let ?vi = "vertexIndices (place_result corner_env (- 512) 507 0 1024 [])"
  have k0: "EncodeAxisUniqueID 1 0 5 3 = 0x40301400"
    by (simp add: EncodeAxisUniqueID_def)
  have ids: "EncodeVoxelUniqueID (mk_ivec4 0 5 3 0) = 0x00301400"
    "EncodeVoxelUniqueID (mk_ivec4 1023 4 3 0) = 0x003013FF"
    "EncodeVoxelUniqueID (mk_ivec4 0 5 2 0) = 0x00201400"
    "EncodeVoxelUniqueID (mk_ivec4 1023 4 2 0) = 0x002013FF"
    by (simp_all add: EncodeVoxelUniqueID_def mk_ivec4_def)
  from wrap_edges(2) have "map_of (activeEdges ?sr) 0x40301400 \<noteq> None"
    by (simp add: map_of_eq_None_iff)
  then obtain info where info: "map_of (activeEdges ?sr) 0x40301400 = Some info"
    by blast
  then have mem: "(0x40301400, info) \<in> set (activeEdges ?sr)" by (rule map_of_SomeD)
  have n: "(1024::nat) \<le> 1024" by simp
  have "winding info
      = (0 \<le> Density corner_env (edge_lower_endpoint (- 512) 507 0 1024 0x40301400))"
    using recorded_edge_facts(2) [OF n mem] by simp
  also have "edge_lower_endpoint (- 512) 507 0 1024 0x40301400 = cell_point (- 512) 507 0 1024 0 5 3"
    by (simp add: edge_lower_endpoint_def DecodeVoxelUniqueID_def mk_ivec4_def Let_def)
  finally have w: "\<not> winding info"
    by (simp add: wrap_point Density_def corner_env_def vec3_of_def mk_vec4_def)
  from pipeline_vertex_index [OF corner_visits(1) wrap_voxels(2) wrap_crossings(2), of "[]"]
  obtain i0 where i0: "?vi 0x00301400 = Some i0" by blast
  from pipeline_vertex_index [OF corner_visits(1) wrap_voxels(4) wrap_crossings(4), of "[]"]
  obtain i1 where i1: "?vi 0x003013FF = Some i1" by blast
  from pipeline_vertex_index [OF corner_visits(1) wrap_voxels(1) wrap_crossings(1), of "[]"]
  obtain i2 where i2: "?vi 0x00201400 = Some i2" by blast
  from pipeline_vertex_index [OF corner_visits(1) wrap_voxels(3) wrap_crossings(3), of "[]"]
  obtain i3 where i3: "?vi 0x002013FF = Some i3" by blast
  have sv: "sharing_voxels 0x40301400 = [0x00301400, 0x003013FF, 0x00201400, 0x002013FF]"
    by (simp add: sharing_voxels_list edge_nodeID_def edge_axis_def ENCODED_EDGE_NODE_OFFSETS_def)
  have cl: "candidate_triangles ?vi (0x40301400, info) = [(i0, i3, i1), (i0, i2, i3)]"
    by (simp add: candidate_triangles_def sv i0 i1 i2 i3 w Let_def)
  have ax: "edge_axis (fst (0x40301400 :: uint32_t, info)) < 3"
    by (simp add: edge_axis_def)
  have et: "edge_triangles ?vi (0x40301400, info) = Inr [(i0, i3, i1), (i0, i2, i3)]"
    unfolding edge_triangles_ok [OF ax] cl ..
  from pipeline_triangles [OF n corner_visits(2), of "- 512" 507 0 "[]"]
  obtain buf where buf: "GenerateMesh corner_env (- 512) 507 0 1024 [] = Inr buf"
    "triangles buf = concat (map (candidate_triangles ?vi) (iter_edges corner_env (activeEdges ?sr)))"
    by blast
  have "set (candidate_triangles ?vi (0x40301400, info)) \<subseteq> set (triangles buf)"
    unfolding buf(2) corner_iter using mem by auto
  then have tr: "(i0, i3, i1) \<in> set (triangles buf)" "(i0, i2, i3) \<in> set (triangles buf)"
    unfolding cl by simp_all
  have sc: "sharing_cells 1 (0, 5, 3) = [(0, 5, 3), (- 1, 5, 3), (0, 5, 2), (- 1, 5, 2)]"
    by (simp add: sharing_cells_def EDGE_NODE_OFFSETS_def mk_ivec4_def)
  have cq: "claimed_quad ?vi 1 (0, 5, 3) (winding info) = []"
    unfolding claimed_quad_def sc by (simp add: cell_index_def)
  show ?thesis
    unfolding k0 ids
    using buf(1) info sc cq i0 i1 i2 i3 et tr by blast
qed

text \<open>
  The Triangulator on a map in which the four candidates of the edge at \<open>(1, 1, 1)\<close> on
  axis 0 have the indices 0 to 3, for either value of the winding flag, and on a map
  that lacks one of them.
\<close>

lemma quad_example:
  "GenerateTriangles
     [(EncodeAxisUniqueID 0 1 1 1, \<lparr>pos = mk_vec4 0 0 0 1, normal = mk_vec4 1 0 0 0, winding = w\<rparr>)]
     [0x00100401 \<mapsto> 0, 0x00000401 \<mapsto> 1, 0x00100001 \<mapsto> 2, 0x00000001 \<mapsto> 3]
     empty_buffer
   = Inr (empty_buffer\<lparr>triangles := (if w then [(0, 1, 3), (0, 3, 2)] else [(0, 3, 1), (0, 2, 3)]),
                        numTriangles := 2\<rparr>)"
  by (simp add: GenerateTriangles_def edge_triangles_def edge_voxelIDs_def table_read_def
        edge_axis_def edge_nodeID_def EncodeAxisUniqueID_def ENCODED_EDGE_NODE_OFFSETS_def
        find_edgeVoxels_def quad_triangles_def empty_buffer_def)

lemma no_quad_example:
  "GenerateTriangles
     [(EncodeAxisUniqueID 0 1 1 1, \<lparr>pos = mk_vec4 0 0 0 1, normal = mk_vec4 1 0 0 0, winding = w\<rparr>)]
     [0x00100401 \<mapsto> 0, 0x00000401 \<mapsto> 1, 0x00100001 \<mapsto> 2]
     empty_buffer
   = Inr empty_buffer"
  by (simp add: GenerateTriangles_def edge_triangles_def edge_voxelIDs_def table_read_def
        edge_axis_def edge_nodeID_def EncodeAxisUniqueID_def ENCODED_EDGE_NODE_OFFSETS_def
        find_edgeVoxels_def quad_triangles_def empty_buffer_def)

end
